theory Spec2Isabelle
  imports Main "HOL-Library.Multiset"
begin

section \<open>Python values, errors and results\<close>

text \<open>
  A card's \<open>value\<close> comes out of the YAML deck description, so it is a Python string
  (\<open>'A'\<close>, \<open>'K'\<close>, \<open>'2'\<close>, as the docstring of \<open>Card\<close> has them) or, when the description
  leaves a number unquoted, a Python integer.
\<close>

datatype pyval = Str string | Num int

text \<open>The exceptions the modelled code can raise.\<close>

datatype error =
    KeyError
  | IndexError
  | ValueError
  | TypeError
  | ZeroDivisionError
  | GameFailure

definition ebind :: "error + 'a \<Rightarrow> ('a \<Rightarrow> error + 'b) \<Rightarrow> error + 'b" where
  "ebind m f = (case m of Inl e \<Rightarrow> Inl e | Inr x \<Rightarrow> f x)"

text \<open>
  Python compares two strings lexicographically by code point; a proper prefix is smaller.
\<close>

fun str_less :: "string \<Rightarrow> string \<Rightarrow> bool" where
  "str_less [] [] = False"
| "str_less [] (y # ys) = True"
| "str_less (x # xs) [] = False"
| "str_less (x # xs) (y # ys) =
     (if (of_char x :: nat) < of_char y then True
      else if (of_char y :: nat) < of_char x then False
      else str_less xs ys)"

text \<open>
  \<open>a > b\<close> on two values: strings with strings, integers with integers; Python 3 raises
  \<open>TypeError\<close> for a string against an integer.
\<close>

fun py_gt :: "pyval \<Rightarrow> pyval \<Rightarrow> error + bool" where
  "py_gt (Str a) (Str b) = Inr (str_less b a)"
| "py_gt (Num a) (Num b) = Inr (b < a)"
| "py_gt (Str a) (Num b) = Inl TypeError"
| "py_gt (Num a) (Str b) = Inl TypeError"

text \<open>
  \<open>xs[i]\<close> for a list, where a negative \<open>i\<close> counts from the end, and \<open>d[k]\<close> for a dict
  (kept as an association list, in insertion order).
\<close>

definition index :: "'a list \<Rightarrow> int \<Rightarrow> error + 'a" where
  "index xs i =
     (if 0 \<le> i \<and> i < int (length xs) then Inr (xs ! nat i)
      else if i < 0 \<and> - int (length xs) \<le> i then Inr (xs ! nat (int (length xs) + i))
      else Inl IndexError)"

definition getitem :: "('k \<times> 'v) list \<Rightarrow> 'k \<Rightarrow> error + 'v" where
  "getitem d k = (case map_of d k of None \<Rightarrow> Inl KeyError | Some v \<Rightarrow> Inr v)"

section \<open>Cards and the deck factory (game/lib/deck.py)\<close>

text \<open>
  \<open>Card\<close> defines no \<open>__eq__\<close>, so \<open>==\<close>, \<open>in\<close> and \<open>list.remove\<close> compare cards by object
  identity. The field \<open>ident\<close> is that identity: the deck factory numbers the cards in the
  order in which it constructs them.
\<close>

record card =
  ident :: nat
  card_value :: pyval
  card_suit :: string
  card_color :: string

text \<open>
  The dictionary \<open>yaml.safe_load\<close> returns; \<open>None\<close> is an absent key. \<open>suits\<close> is a list of
  dictionaries from a color to its list of suits.
\<close>

record deck_dict =
  dict_name :: "string option"
  dict_size :: "int option"
  dict_suits :: "(string \<times> string list) list list option"
  dict_value_list :: "pyval list option"

record card_deck =
  deck_name :: string
  deck_size :: int
  deck_suits :: "(string \<times> string list) list list"
  deck_values :: "pyval list"
  cards :: "card list"

text \<open>The four nested loops of \<open>__create_deck\<close>, innermost first.\<close>

fun add_values :: "string \<Rightarrow> string \<Rightarrow> pyval list \<Rightarrow> card list \<Rightarrow> card list" where
  "add_values color suit [] cs = cs"
| "add_values color suit (v # vs) cs =
     add_values color suit vs
       (cs @ [\<lparr>ident = length cs, card_value = v, card_suit = suit, card_color = color\<rparr>])"

fun add_suits :: "string \<Rightarrow> string list \<Rightarrow> pyval list \<Rightarrow> card list \<Rightarrow> card list" where
  "add_suits color [] vals cs = cs"
| "add_suits color (s # ss) vals cs = add_suits color ss vals (add_values color s vals cs)"

fun add_items :: "(string \<times> string list) list \<Rightarrow> pyval list \<Rightarrow> card list \<Rightarrow> card list" where
  "add_items [] vals cs = cs"
| "add_items ((color, ss) # items) vals cs = add_items items vals (add_suits color ss vals cs)"

fun add_colors :: "(string \<times> string list) list list \<Rightarrow> pyval list \<Rightarrow> card list \<Rightarrow> card list" where
  "add_colors [] vals cs = cs"
| "add_colors (colors # rest) vals cs = add_colors rest vals (add_items colors vals cs)"

definition create_deck :: "card_deck \<Rightarrow> card_deck" where
  "create_deck d = d\<lparr>cards := add_colors (deck_suits d) (deck_values d) (cards d)\<rparr>"

text \<open>
  \<open>CardDeck.__init__\<close> on the loaded dictionary: the four subscripts in the order of the
  source, each raising \<open>KeyError\<close> on an absent key, then \<open>__create_deck\<close>. The declared size is
  stored and not looked at again.
\<close>

definition CardDeck :: "deck_dict \<Rightarrow> error + card_deck" where
  "CardDeck dd =
     (case dict_name dd of None \<Rightarrow> Inl KeyError | Some n \<Rightarrow>
      case dict_size dd of None \<Rightarrow> Inl KeyError | Some sz \<Rightarrow>
      case dict_suits dd of None \<Rightarrow> Inl KeyError | Some su \<Rightarrow>
      case dict_value_list dd of None \<Rightarrow> Inl KeyError | Some vl \<Rightarrow>
        Inr (create_deck
          \<lparr>deck_name = n, deck_size = sz, deck_suits = su, deck_values = vl, cards = []\<rparr>))"

text \<open>
  \<open>random.shuffle\<close> reorders the list in place; the order it leaves is a parameter, a
  permutation of the cards (\<open>mset shuffled = mset (cards d)\<close>).
\<close>

definition shuffle :: "card_deck \<Rightarrow> card list \<Rightarrow> card_deck" where
  "shuffle d shuffled = d\<lparr>cards := shuffled\<rparr>"

section \<open>Round resolution (game/War.py, check\_winner)\<close>

definition translate_A_K :: "(pyval \<times> pyval) list" where
  "translate_A_K = [(Str ''A'', Str ''Z''), (Str ''K'', Str ''X'')]"

definition translate :: "pyval \<Rightarrow> pyval" where
  "translate v = (case map_of translate_A_K v of Some t \<Rightarrow> t | None \<Rightarrow> v)"

text \<open>
  \<open>current_round\<close> is a list of dictionaries from a player index to the card played. The
  last branch is \<open>winner[-1]\<close> with \<open>winner\<close> still \<open>None\<close>.
\<close>

definition check_winner :: "(int \<times> card) list list \<Rightarrow> error + int" where
  "check_winner current_round =
     ebind (index current_round 0) (\<lambda>d0.
     ebind (getitem d0 0) (\<lambda>c0.
     let card_value1 = translate (card_value c0) in
     ebind (index current_round 1) (\<lambda>d1.
     ebind (getitem d1 1) (\<lambda>c1.
     let card_value2 = translate (card_value c1) in
     ebind (py_gt card_value1 card_value2) (\<lambda>gt1.
       if gt1 then index (map fst d0) (- 1)
       else ebind (py_gt card_value2 card_value1) (\<lambda>gt2.
         if gt2 then index (map fst d1) (- 1)
         else if card_value1 = card_value2 then Inr (- 1)
         else Inl TypeError))))))"

section \<open>Hands (game/lib/game.py, Hand)\<close>

text \<open>
  What a call that reads the card reader can come to: it returns, it raises, or the reader
  never delivers another tag and the call does not return. The tags the reader will deliver
  are a list, consumed from its head; \<open>get_card\<close> blocks on the empty list. A reader or a
  display that fails (an I/O error of the hardware) is not part of the model.
\<close>

datatype 'a outcome = Ok 'a | Raise error | Waiting

text \<open>
  \<open>Hand.__init__\<close> binds \<open>cards\<close> and \<open>active\<close> to the same list object; nothing reads
  \<open>cards\<close> afterwards, so the record keeps \<open>active\<close> only. \<open>turn\<close> starts as \<open>None\<close>.
\<close>

record hand =
  active :: "card list"
  dead :: "card list"
  rfids :: "int list"
  turn :: "bool option"

definition Hand :: "card list \<Rightarrow> hand" where
  "Hand cs = \<lparr>active = cs, dead = [], rfids = [], turn = None\<rparr>"

text \<open>\<open>list.remove(x)\<close>: drops the first element equal to \<open>x\<close>, \<open>ValueError\<close> when there is none.\<close>

fun list_remove :: "'a \<Rightarrow> 'a list \<Rightarrow> error + 'a list" where
  "list_remove x [] = Inl ValueError"
| "list_remove x (y # ys) =
     (if y = x then Inr ys
      else case list_remove x ys of Inl e \<Rightarrow> Inl e | Inr zs \<Rightarrow> Inr (y # zs))"

text \<open>\<open>place\<close> returns the card or the exception, together with the hand as the call leaves it.\<close>

definition place :: "hand \<Rightarrow> card \<Rightarrow> (error + card) \<times> hand" where
  "place h c =
     (case list_remove c (active h) of
        Inl e \<Rightarrow> (Inl e, h)
      | Inr rest \<Rightarrow> (Inr c, h\<lparr>active := rest\<rparr>))"

fun collect :: "hand \<Rightarrow> card list \<Rightarrow> hand" where
  "collect h [] = h"
| "collect h (c # cs) = collect (h\<lparr>dead := dead h @ [c]\<rparr>) cs"

fun register :: "hand \<Rightarrow> int \<Rightarrow> int list \<Rightarrow> (hand \<times> int list) outcome" where
  "register h n [] = (if int (length (rfids h)) < n then Waiting else Ok (h, []))"
| "register h n (r # rs) =
     (if int (length (rfids h)) < n then register (h\<lparr>rfids := rfids h @ [r]\<rparr>) n rs
      else Ok (h, r # rs))"

section \<open>The game engine (game/lib/game.py, Game)\<close>

record game =
  game_name :: string
  deck :: card_deck
  graveyard :: "card list"
  hands :: "int \<rightharpoonup> hand"
  players :: int
  req_hw :: int
  in_play :: "card list"

text \<open>\<open>range(n)\<close>.\<close>

definition py_range :: "int \<Rightarrow> int list" where
  "py_range n = [0..n - 1]"

fun get_player_loop :: "(int \<rightharpoonup> hand) \<Rightarrow> int \<Rightarrow> int list \<Rightarrow> error + int" where
  "get_player_loop hs player_hw [] = Inl GameFailure"
| "get_player_loop hs player_hw (player # others) =
     (case hs player of
        None \<Rightarrow> Inl KeyError
      | Some h \<Rightarrow>
          if player_hw \<in> set (rfids h) then Inr player
          else get_player_loop hs player_hw others)"

definition get_player :: "game \<Rightarrow> int \<Rightarrow> error + int" where
  "get_player g player_hw = get_player_loop (hands g) player_hw (py_range (players g))"

definition is_turn :: "game \<Rightarrow> int \<Rightarrow> error + bool" where
  "is_turn g player_hw =
     ebind (get_player g player_hw) (\<lambda>player.
       case hands g player of
         None \<Rightarrow> Inl KeyError
       | Some h \<Rightarrow> Inr (turn h = Some True))"

section \<open>War (game/War.py)\<close>

text \<open>
  \<open>War()\<close> is \<open>Game("War", 2)\<close>: two required physical cards, the default two players, the
  deck built from the loaded description.
\<close>

definition War :: "deck_dict \<Rightarrow> error + game" where
  "War dd =
     (case CardDeck dd of
        Inl e \<Rightarrow> Inl e
      | Inr d \<Rightarrow>
          Inr \<lparr>game_name = ''War'', deck = d, graveyard = [], hands = Map.empty,
               players = 2, req_hw = 2, in_play = []\<rparr>)"

text \<open>Python's \<open>not x\<close> on \<open>None\<close>, \<open>True\<close> and \<open>False\<close>.\<close>

definition py_not :: "bool option \<Rightarrow> bool" where
  "py_not t = (case t of None \<Rightarrow> True | Some b \<Rightarrow> \<not> b)"

fun switch_loop :: "int list \<Rightarrow> (int \<rightharpoonup> hand) \<Rightarrow> error + (int \<rightharpoonup> hand)" where
  "switch_loop [] hs = Inr hs"
| "switch_loop (player # others) hs =
     (case hs player of
        None \<Rightarrow> Inl KeyError
      | Some h \<Rightarrow> switch_loop others (hs(player \<mapsto> h\<lparr>turn := Some (py_not (turn h))\<rparr>)))"

definition switch_turns :: "game \<Rightarrow> error + game" where
  "switch_turns g =
     (case switch_loop (py_range (players g)) (hands g) of
        Inl e \<Rightarrow> Inl e
      | Inr hs \<Rightarrow> Inr (g\<lparr>hands := hs\<rparr>))"

text \<open>\<open>current_round[i][k]\<close>.\<close>

definition played :: "(int \<times> card) list list \<Rightarrow> int \<Rightarrow> int \<Rightarrow> error + card" where
  "played current_round i k = ebind (index current_round i) (\<lambda>d. getitem d k)"

text \<open>
  \<open>self.hands[p].dead.append(c)\<close> and \<open>self.hands[p].active.append(c)\<close>: the hand is looked
  up before the card expression \<open>c\<close> is evaluated.
\<close>

definition append_dead :: "(int \<rightharpoonup> hand) \<Rightarrow> int \<Rightarrow> error + card \<Rightarrow> error + (int \<rightharpoonup> hand)" where
  "append_dead hs p c =
     (case hs p of
        None \<Rightarrow> Inl KeyError
      | Some h \<Rightarrow> ebind c (\<lambda>c'. Inr (hs(p \<mapsto> h\<lparr>dead := dead h @ [c']\<rparr>))))"

definition append_active :: "(int \<rightharpoonup> hand) \<Rightarrow> int \<Rightarrow> error + card \<Rightarrow> error + (int \<rightharpoonup> hand)" where
  "append_active hs p c =
     (case hs p of
        None \<Rightarrow> Inl KeyError
      | Some h \<Rightarrow> ebind c (\<lambda>c'. Inr (hs(p \<mapsto> h\<lparr>active := active h @ [c']\<rparr>))))"

definition distribute :: "game \<Rightarrow> int \<Rightarrow> (int \<times> card) list list \<Rightarrow> error + game" where
  "distribute g winner current_round =
     ebind (if winner \<noteq> - 1
            then ebind (append_dead (hands g) winner (played current_round 0 0)) (\<lambda>hs.
                   append_dead hs winner (played current_round 1 1))
            else Inr (hands g)) (\<lambda>hs.
     ebind (append_active hs 0 (played current_round 0 0)) (\<lambda>hs.
     ebind (append_active hs 1 (played current_round 1 1)) (\<lambda>hs.
       Inr (g\<lparr>hands := hs\<rparr>))))"

text \<open>\<open>xs[:i]\<close> and \<open>xs[i:]\<close>.\<close>

definition slice_to :: "'a list \<Rightarrow> int \<Rightarrow> 'a list" where
  "slice_to xs i = take (nat (if i < 0 then int (length xs) + i else i)) xs"

definition slice_from :: "'a list \<Rightarrow> int \<Rightarrow> 'a list" where
  "slice_from xs i = drop (nat (if i < 0 then int (length xs) + i else i)) xs"

text \<open>
  The \<open>for\<close> loop of \<open>create_hands\<close>: a fresh hand from the player's half, the registration of
  its tags, and the \<open>print\<close> of \<open>rfids[-1]\<close>, which raises on a hand with no tag.
\<close>

fun deal_loop ::
  "int list \<Rightarrow> card list list \<Rightarrow> int \<Rightarrow> (int \<rightharpoonup> hand) \<Rightarrow> int list \<Rightarrow>
     ((int \<rightharpoonup> hand) \<times> int list) outcome" where
  "deal_loop [] halves n hs reads = Ok (hs, reads)"
| "deal_loop (player # others) halves n hs reads =
     (case index halves player of
        Inl e \<Rightarrow> Raise e
      | Inr half \<Rightarrow>
          (case register (Hand half) n reads of
             Waiting \<Rightarrow> Waiting
           | Raise e \<Rightarrow> Raise e
           | Ok (h, rest) \<Rightarrow>
               (case index (rfids h) (- 1) of
                  Inl e \<Rightarrow> Raise e
                | Inr last_tag \<Rightarrow> deal_loop others halves n (hs(player \<mapsto> h)) rest)))"

definition create_hands :: "game \<Rightarrow> card list \<Rightarrow> int list \<Rightarrow> (game \<times> int list) outcome" where
  "create_hands g shuffled reads =
     (let d = shuffle (deck g) shuffled in
      if players g = 0 then Raise ZeroDivisionError
      else
        let deck_half = int (length (cards d)) div players g;
            deck_halves = [slice_to (cards d) deck_half, slice_from (cards d) deck_half]
        in case deal_loop (py_range (players g)) deck_halves (req_hw g div players g)
                  (hands g) reads of
             Waiting \<Rightarrow> Waiting
           | Raise e \<Rightarrow> Raise e
           | Ok (hs, rest) \<Rightarrow>
               (case hs 0 of
                  None \<Rightarrow> Raise KeyError
                | Some h0 \<Rightarrow>
                    Ok (g\<lparr>deck := d, hands := hs(0 \<mapsto> h0\<lparr>turn := Some True\<rparr>)\<rparr>, rest)))"

text \<open>
  The polling loop of \<open>get_player_info\<close>: tags are read until one belongs to the player whose
  turn it is.
\<close>

fun wait_turn :: "game \<Rightarrow> int list \<Rightarrow> (int \<times> int list) outcome" where
  "wait_turn g [] = Waiting"
| "wait_turn g (player_hw # rest) =
     (case is_turn g player_hw of
        Inl e \<Rightarrow> Raise e
      | Inr True \<Rightarrow> Ok (player_hw, rest)
      | Inr False \<Rightarrow> wait_turn g rest)"

text \<open>
  \<open>get_player_info\<close>: the card is popped from the front of the player's active list. The
  display write and the sleep change nothing in the game.
\<close>

definition get_player_info :: "game \<Rightarrow> int list \<Rightarrow> ((int \<times> card) list \<times> game \<times> int list) outcome" where
  "get_player_info g reads =
     (case wait_turn g reads of
        Waiting \<Rightarrow> Waiting
      | Raise e \<Rightarrow> Raise e
      | Ok (player_hw, rest) \<Rightarrow>
          (case get_player g player_hw of
             Inl e \<Rightarrow> Raise e
           | Inr player_id \<Rightarrow>
               (case hands g player_id of
                  None \<Rightarrow> Raise KeyError
                | Some h \<Rightarrow>
                    (case active h of
                       [] \<Rightarrow> Raise IndexError
                     | c # others \<Rightarrow>
                         (case switch_turns
                                 (g\<lparr>hands := (hands g)(player_id \<mapsto> h\<lparr>active := others\<rparr>)\<rparr>) of
                            Inl e \<Rightarrow> Raise e
                          | Inr g' \<Rightarrow> Ok ([(player_id, c)], g', rest))))))"

text \<open>The body of the \<open>while\<close> loop of \<open>start\<close>: the plays, the winner, the distribution, the sizes.\<close>

fun collect_plays ::
  "int list \<Rightarrow> game \<Rightarrow> int list \<Rightarrow> (int \<times> card) list list \<Rightarrow>
     ((int \<times> card) list list \<times> game \<times> int list) outcome" where
  "collect_plays [] g reads curr_round = Ok (curr_round, g, reads)"
| "collect_plays (player # others) g reads curr_round =
     (case get_player_info g reads of
        Waiting \<Rightarrow> Waiting
      | Raise e \<Rightarrow> Raise e
      | Ok (current, g', rest) \<Rightarrow> collect_plays others g' rest (curr_round @ [current]))"

fun show_sizes :: "int list \<Rightarrow> (int \<rightharpoonup> hand) \<Rightarrow> error + unit" where
  "show_sizes [] hs = Inr ()"
| "show_sizes (player # others) hs =
     (case hs player of None \<Rightarrow> Inl KeyError | Some h \<Rightarrow> show_sizes others hs)"

definition play_round :: "game \<Rightarrow> int list \<Rightarrow> (game \<times> int list) outcome" where
  "play_round g reads =
     (case collect_plays (py_range (players g)) g reads [] of
        Waiting \<Rightarrow> Waiting
      | Raise e \<Rightarrow> Raise e
      | Ok (curr_round, g1, rest) \<Rightarrow>
          (case check_winner curr_round of
             Inl e \<Rightarrow> Raise e
           | Inr winner \<Rightarrow>
               (case distribute g1 winner curr_round of
                  Inl e \<Rightarrow> Raise e
                | Inr g2 \<Rightarrow>
                    (case show_sizes (py_range (players g2)) (hands g2) of
                       Inl e \<Rightarrow> Raise e
                     | Inr u \<Rightarrow> Ok (g2, rest)))))"

text \<open>The loop condition, with the short circuit of \<open>and\<close>.\<close>

definition loop_cond :: "game \<Rightarrow> error + bool" where
  "loop_cond g =
     (case hands g 0 of
        None \<Rightarrow> Inl KeyError
      | Some h0 \<Rightarrow>
          if length (dead h0) < 52
          then (case hands g 1 of
                  None \<Rightarrow> Inl KeyError
                | Some h1 \<Rightarrow> Inr (length (dead h1) < 52))
          else Inr False)"

text \<open>The announcement: the first player whose won pile holds 52 cards or more, if any.\<close>

fun announce :: "int list \<Rightarrow> (int \<rightharpoonup> hand) \<Rightarrow> error + int option" where
  "announce [] hs = Inr None"
| "announce (player # others) hs =
     (case hs player of
        None \<Rightarrow> Inl KeyError
      | Some h \<Rightarrow> if 52 \<le> length (dead h) then Inr (Some player) else announce others hs)"

text \<open>
  \<open>start\<close>: the \<open>while\<close> loop and the announcement. The model returns the player announced
  and the game as the loop leaves it. Every round reads at least two tags, so the recursion
  is bounded by the tags the reader delivers; \<open>Waiting\<close> means that the loop is still running
  when they are used up.
\<close>

function start :: "game \<Rightarrow> int list \<Rightarrow> (int option \<times> game) outcome" where
  "start g reads =
     (case loop_cond g of
        Inl e \<Rightarrow> Raise e
      | Inr False \<Rightarrow>
          (case announce (py_range (players g)) (hands g) of
             Inl e \<Rightarrow> Raise e
           | Inr w \<Rightarrow> Ok (w, g))
      | Inr True \<Rightarrow>
          (case play_round g reads of
             Waiting \<Rightarrow> Waiting
           | Raise e \<Rightarrow> Raise e
           | Ok (g', rest) \<Rightarrow> start g' rest))"
  by pat_completeness auto

lemma wait_turn_shorter:
  "wait_turn g reads = Ok (hw, rest) \<Longrightarrow> length rest < length reads"
proof (induction reads)
  case Nil
  then show ?case by simp
next
  case (Cons r rs)
  then show ?case
    by (cases "is_turn g r") (auto split: bool.splits if_splits)
qed

lemma get_player_info_shorter:
  "get_player_info g reads = Ok (cur, g', rest) \<Longrightarrow> length rest < length reads"
  unfolding get_player_info_def
  by (auto split: outcome.splits sum.splits option.splits list.splits dest: wait_turn_shorter)

lemma collect_plays_length:
  "collect_plays ps g reads acc = Ok (cr, g', rest) \<Longrightarrow>
     length rest + length ps \<le> length reads \<and> length cr = length acc + length ps"
proof (induction ps arbitrary: g reads acc)
  case Nil
  then show ?case by simp
next
  case (Cons p ps)
  from Cons.prems obtain cur g1 rest1 where
    play: "get_player_info g reads = Ok (cur, g1, rest1)" and
    later: "collect_plays ps g1 rest1 (acc @ [cur]) = Ok (cr, g', rest)"
    by (auto split: outcome.splits)
  from Cons.IH [OF later] get_player_info_shorter [OF play]
  show ?case by simp
qed

lemma check_winner_two_plays:
  "check_winner cr = Inr w \<Longrightarrow> 2 \<le> length cr"
  unfolding check_winner_def ebind_def index_def
  by (auto simp: Let_def split: sum.splits if_splits)

lemma play_round_shorter:
  "play_round g reads = Ok (g', rest) \<Longrightarrow> length rest < length reads"
  unfolding play_round_def
  by (auto split: outcome.splits sum.splits
      dest!: collect_plays_length check_winner_two_plays)

termination start
  by (relation "measure (\<lambda>(g, reads). length reads)") (auto dest: play_round_shorter)

declare start.simps [simp del]

text \<open>\<open>n\<close> passes through the body of the loop, one after the other.\<close>

fun play_rounds :: "nat \<Rightarrow> game \<Rightarrow> int list \<Rightarrow> (game \<times> int list) outcome" where
  "play_rounds 0 g reads = Ok (g, reads)"
| "play_rounds (Suc n) g reads =
     (case play_round g reads of
        Waiting \<Rightarrow> Waiting
      | Raise e \<Rightarrow> Raise e
      | Ok (g', rest) \<Rightarrow> play_rounds n g' rest)"

section \<open>Round resolution: the comparison\<close>

lemma str_less_irrefl: "\<not> str_less a a"
  by (induction a) auto


lemma str_less_total: "\<not> str_less a b \<Longrightarrow> \<not> str_less b a \<Longrightarrow> a = b"
proof (induction a b rule: str_less.induct)
  case (4 x xs y ys)
  then have "(of_char x :: nat) = of_char y"
    by (auto split: if_splits)
  then have "x = y" by simp
  with 4 show ?case by (auto split: if_splits)
qed auto

text \<open>
  A round as \<open>start\<close> builds it: the first dictionary holds player 0's card, the second
  player 1's.
\<close>

lemma check_winner_plays:
  "check_winner [[(0, a)], [(1, b)]] =
     ebind (py_gt (translate (card_value a)) (translate (card_value b))) (\<lambda>gt1.
       if gt1 then Inr 0
       else ebind (py_gt (translate (card_value b)) (translate (card_value a))) (\<lambda>gt2.
         if gt2 then Inr 1
         else if translate (card_value a) = translate (card_value b) then Inr (- 1)
         else Inl TypeError))"
  by (auto simp: check_winner_def ebind_def index_def getitem_def Let_def split: sum.splits)

lemma check_winner_cases:
  "check_winner [[(0, a)], [(1, b)]] \<in> {Inr 0, Inr 1, Inr (- 1), Inl TypeError}"
  unfolding check_winner_plays ebind_def
  by (cases "translate (card_value a)"; cases "translate (card_value b)") auto


section \<open>Round resolution against the rank order\<close>

text \<open>
  The rank order as the specification words it, lowest first, and the result it asks of a
  round between two ranks: 0 or 1 for the player with the higher rank, \<open>-1\<close> for equal ranks.
\<close>

definition rank_order :: "pyval list" where
  "rank_order =
     [Str ''2'', Str ''3'', Str ''4'', Str ''5'', Str ''6'', Str ''7'', Str ''8'', Str ''9'',
      Str ''10'', Str ''J'', Str ''Q'', Str ''K'', Str ''A'']"

fun position :: "pyval \<Rightarrow> pyval list \<Rightarrow> nat option" where
  "position r [] = None"
| "position r (x # xs) = (if x = r then Some 0 else map_option Suc (position r xs))"

definition rank_winner :: "pyval \<Rightarrow> pyval \<Rightarrow> int option" where
  "rank_winner a b =
     (case (position a rank_order, position b rank_order) of
        (Some i, Some j) \<Rightarrow> Some (if j < i then 0 else if i < j then 1 else - 1)
      | _ \<Rightarrow> None)"

definition rank_card :: "pyval \<Rightarrow> card" where
  "rank_card r = \<lparr>ident = 0, card_value = r, card_suit = ''Hearts'', card_color = ''Red''\<rparr>"


text \<open>
  On the 13 \<times> 13 pairs of ranks held as strings, \<open>check_winner\<close> gives the result of the rank
  order on every pair but sixteen: \<open>'10'\<close> against \<open>'2'\<close> to \<open>'9'\<close>, in either seat.
\<close>

definition misordered :: "pyval \<Rightarrow> pyval \<Rightarrow> bool" where
  "misordered a b = (a = Str ''10'' \<and> b \<in> set (take 8 rank_order))"

lemma check_winner_by_rank:
  "list_all (\<lambda>a. list_all (\<lambda>b.
      (map_option Inr (rank_winner a b) = Some (check_winner [[(0, rank_card a)], [(1, rank_card b)]]))
       = (\<not> misordered a b \<and> \<not> misordered b a)) rank_order) rank_order"
  by (simp add: check_winner_plays ebind_def rank_card_def rank_order_def translate_def translate_A_K_def rank_winner_def misordered_def)


text \<open>
  Claim C1. The round is to go to the higher rank in 2 < 3 < ... < 10 < J < Q < K < A. The
  comparison is Python's string order after \<open>A\<close> and \<open>K\<close> are renamed, and it puts \<open>'10'\<close>
  below \<open>'2'\<close>: with the ten of hearts played by player 0 and the two of spades by player 1,
  \<open>check_winner\<close> returns player 1, where the rank order names player 0.
\<close>

theorem check_winner_ten_below_two:
  "check_winner
     [[(0, \<lparr>ident = 9, card_value = Str ''10'', card_suit = ''Hearts'', card_color = ''Red''\<rparr>)],
      [(1, \<lparr>ident = 27, card_value = Str ''2'', card_suit = ''Spades'', card_color = ''Black''\<rparr>)]]
     = Inr 1 \<and>
   rank_winner (Str ''10'') (Str ''2'') = Some 0"
  by (simp add: check_winner_plays ebind_def translate_def translate_A_K_def rank_winner_def rank_order_def)

text \<open>
  Were the description to give the numeral ranks as integers, the ten against the jack would
  raise instead of losing.
\<close>

lemma check_winner_ten_against_jack:
  "check_winner
     [[(0, \<lparr>ident = 9, card_value = Num 10, card_suit = ''Hearts'', card_color = ''Red''\<rparr>)],
      [(1, \<lparr>ident = 36, card_value = Str ''J'', card_suit = ''Spades'', card_color = ''Black''\<rparr>)]]
     = Inl TypeError"
  by (simp add: check_winner_plays ebind_def translate_def translate_A_K_def)

section \<open>The deck factory\<close>

text \<open>The cards a description asks for, in the order of the loops: color group, suit, value.\<close>

definition composition :: "(string \<times> string list) list list \<Rightarrow> pyval list \<Rightarrow> (string \<times> string \<times> pyval) list" where
  "composition su vl =
     concat (map (\<lambda>colors. concat (map (\<lambda>(color, ss).
       concat (map (\<lambda>s. map (\<lambda>v. (color, s, v)) vl) ss)) colors)) su)"

definition face :: "card \<Rightarrow> string \<times> string \<times> pyval" where
  "face c = (card_color c, card_suit c, card_value c)"

lemma add_values_faces:
  "map face (add_values color s vl cs) = map face cs @ map (\<lambda>v. (color, s, v)) vl"
  by (induction vl arbitrary: cs) (simp_all add: face_def)

lemma add_suits_faces:
  "map face (add_suits color ss vl cs) =
     map face cs @ concat (map (\<lambda>s. map (\<lambda>v. (color, s, v)) vl) ss)"
  by (induction ss arbitrary: cs) (simp_all add: add_values_faces)

lemma add_items_faces:
  "map face (add_items colors vl cs) =
     map face cs @ concat (map (\<lambda>(color, ss).
       concat (map (\<lambda>s. map (\<lambda>v. (color, s, v)) vl) ss)) colors)"
  by (induction colors vl cs rule: add_items.induct) (simp_all add: add_suits_faces)

lemma add_colors_faces:
  "map face (add_colors su vl cs) = map face cs @ composition su vl"
  by (induction su arbitrary: cs) (simp_all add: add_items_faces composition_def)

lemma length_composition:
  "length (composition su vl) =
     (\<Sum>colors\<leftarrow>su. \<Sum>(color, ss)\<leftarrow>colors. length ss * length vl)"
proof -
  have inner: "length (concat (map (\<lambda>s. map (\<lambda>v. (color, s, v)) vl) ss)) = length ss * length vl"
    for color :: string and ss :: "string list"
    by (induction ss) simp_all
  have middle: "length (concat (map (\<lambda>(color, ss).
       concat (map (\<lambda>s. map (\<lambda>v. (color, s, v)) vl) ss)) colors)) =
     (\<Sum>(color, ss)\<leftarrow>colors. length ss * length vl)"
    for colors :: "(string \<times> string list) list"
    by (induction colors) (auto simp: inner)
  show ?thesis
    unfolding composition_def by (induction su) (simp_all add: middle)
qed


text \<open>
  Claim C7, as amended. A description with its four fields yields the deck whose cards are,
  in order, one for every color, suit of that color and value, so the sum over the colors of
  suits times values in number; the declared size is stored as it is and compared with
  nothing. A description that lacks a field raises \<open>KeyError\<close>.
\<close>

theorem CardDeck_cards:
  "CardDeck dd =
     (case (dict_name dd, dict_size dd, dict_suits dd, dict_value_list dd) of
        (Some n, Some sz, Some su, Some vl) \<Rightarrow>
          Inr (create_deck \<lparr>deck_name = n, deck_size = sz, deck_suits = su, deck_values = vl, cards = []\<rparr>)
      | _ \<Rightarrow> Inl KeyError) \<and>
   map face (cards (create_deck \<lparr>deck_name = n, deck_size = sz, deck_suits = su, deck_values = vl, cards = []\<rparr>))
     = composition su vl \<and>
   length (cards (create_deck \<lparr>deck_name = n, deck_size = sz, deck_suits = su, deck_values = vl, cards = []\<rparr>))
     = (\<Sum>colors\<leftarrow>su. \<Sum>(color, ss)\<leftarrow>colors. length ss * length vl) \<and>
   deck_size (create_deck \<lparr>deck_name = n, deck_size = sz, deck_suits = su, deck_values = vl, cards = []\<rparr>) = sz"
proof -
  have faces: "map face (cards (create_deck \<lparr>deck_name = n, deck_size = sz, deck_suits = su, deck_values = vl, cards = []\<rparr>))
     = composition su vl"
    by (simp add: create_deck_def add_colors_faces)
  have "length (map face (cards (create_deck \<lparr>deck_name = n, deck_size = sz, deck_suits = su, deck_values = vl, cards = []\<rparr>)))
     = (\<Sum>colors\<leftarrow>su. \<Sum>(color, ss)\<leftarrow>colors. length ss * length vl)"
    unfolding faces by (rule length_composition)
  then show ?thesis
    using faces by (simp add: CardDeck_def create_deck_def split: option.splits)
qed


text \<open>
  The claim as stated fails: a description that declares 52 cards and lists one suit and one
  value is accepted, and the deck has one card.
\<close>

theorem CardDeck_size_unchecked:
  "map_sum id (\<lambda>d. (deck_size d, length (cards d)))
     (CardDeck \<lparr>dict_name = Some ''standard'', dict_size = Some 52,
                dict_suits = Some [[(''Red'', [''Hearts''])]],
                dict_value_list = Some [Str ''A'']\<rparr>) = Inr (52, 1)"
  by (simp add: CardDeck_def create_deck_def)


section \<open>Placing a card\<close>

lemma list_remove_absent: "x \<notin> set xs \<Longrightarrow> list_remove x xs = Inl ValueError"
  by (induction xs) auto

lemma list_remove_present:
  "x \<in> set xs \<Longrightarrow> \<exists>pre post. xs = pre @ x # post \<and> x \<notin> set pre \<and> list_remove x xs = Inr (pre @ post)"
proof (induction xs)
  case Nil
  then show ?case by simp
next
  case (Cons y ys)
  show ?case
  proof (cases "y = x")
    case True
    then have "y # ys = [] @ x # ys \<and> x \<notin> set [] \<and> list_remove x (y # ys) = Inr ([] @ ys)"
      by simp
    then show ?thesis by blast
  next
    case False
    with Cons obtain pre post where
      "ys = pre @ x # post" "x \<notin> set pre" "list_remove x ys = Inr (pre @ post)"
      by auto
    with False have "y # ys = (y # pre) @ x # post \<and> x \<notin> set (y # pre) \<and>
      list_remove x (y # ys) = Inr ((y # pre) @ post)"
      by simp
    then show ?thesis by blast
  qed
qed


text \<open>
  Claim C8. When the card is in \<open>active\<close>, \<open>place\<close> returns it and takes its first occurrence
  out of \<open>active\<close>, every other card staying where it was and \<open>dead\<close>, \<open>rfids\<close> and \<open>turn\<close> as
  they were; when it is not, \<open>place\<close> raises (the \<open>ValueError\<close> of \<open>list.remove\<close> is the
  not-found failure) and the hand is unchanged.
\<close>

theorem place_removes_card:
  "(c \<in> set (active h) \<longrightarrow>
      (\<exists>pre post. active h = pre @ c # post \<and> c \<notin> set pre \<and>
         place h c = (Inr c, h\<lparr>active := pre @ post\<rparr>))) \<and>
   (c \<notin> set (active h) \<longrightarrow> place h c = (Inl ValueError, h))"
proof (intro conjI impI)
  assume "c \<in> set (active h)"
  from list_remove_present [OF this] obtain pre post where
    split: "active h = pre @ c # post" "c \<notin> set pre" and
    removed: "list_remove c (active h) = Inr (pre @ post)"
    by blast
  from removed have "place h c = (Inr c, h\<lparr>active := pre @ post\<rparr>)"
    by (simp add: place_def)
  with split show
    "\<exists>pre post. active h = pre @ c # post \<and> c \<notin> set pre \<and>
         place h c = (Inr c, h\<lparr>active := pre @ post\<rparr>)"
    by blast
next
  assume "c \<notin> set (active h)"
  then show "place h c = (Inl ValueError, h)"
    by (simp add: place_def list_remove_absent)
qed


theorem place_removes_card_witness:
  "place \<lparr>active = [\<lparr>ident = 0, card_value = Str ''A'', card_suit = ''Hearts'', card_color = ''Red''\<rparr>,
                    \<lparr>ident = 1, card_value = Str ''2'', card_suit = ''Hearts'', card_color = ''Red''\<rparr>],
          dead = [], rfids = [7], turn = None\<rparr>
     \<lparr>ident = 1, card_value = Str ''2'', card_suit = ''Hearts'', card_color = ''Red''\<rparr> =
   (Inr \<lparr>ident = 1, card_value = Str ''2'', card_suit = ''Hearts'', card_color = ''Red''\<rparr>,
    \<lparr>active = [\<lparr>ident = 0, card_value = Str ''A'', card_suit = ''Hearts'', card_color = ''Red''\<rparr>],
     dead = [], rfids = [7], turn = None\<rparr>) \<and>
   place \<lparr>active = [\<lparr>ident = 0, card_value = Str ''A'', card_suit = ''Hearts'', card_color = ''Red''\<rparr>],
          dead = [], rfids = [7], turn = None\<rparr>
     \<lparr>ident = 1, card_value = Str ''2'', card_suit = ''Hearts'', card_color = ''Red''\<rparr> =
   (Inl ValueError,
    \<lparr>active = [\<lparr>ident = 0, card_value = Str ''A'', card_suit = ''Hearts'', card_color = ''Red''\<rparr>],
     dead = [], rfids = [7], turn = None\<rparr>)"
  using
    place_removes_card [of
      "\<lparr>ident = 1, card_value = Str ''2'', card_suit = ''Hearts'', card_color = ''Red''\<rparr>"
      "\<lparr>active = [\<lparr>ident = 0, card_value = Str ''A'', card_suit = ''Hearts'', card_color = ''Red''\<rparr>,
                  \<lparr>ident = 1, card_value = Str ''2'', card_suit = ''Hearts'', card_color = ''Red''\<rparr>],
        dead = [], rfids = [7], turn = None\<rparr>"]
    place_removes_card [of
      "\<lparr>ident = 1, card_value = Str ''2'', card_suit = ''Hearts'', card_color = ''Red''\<rparr>"
      "\<lparr>active = [\<lparr>ident = 0, card_value = Str ''A'', card_suit = ''Hearts'', card_color = ''Red''\<rparr>],
        dead = [], rfids = [7], turn = None\<rparr>"]
  by (auto simp: Cons_eq_append_conv)

section \<open>Resolving a tag to a player\<close>

text \<open>Player \<open>p\<close> has a hand, and the tag is among the tags bound to it.\<close>

definition bound_to :: "game \<Rightarrow> int \<Rightarrow> int \<Rightarrow> bool" where
  "bound_to g p hw = (case hands g p of None \<Rightarrow> False | Some h \<Rightarrow> hw \<in> set (rfids h))"

lemma get_player_loop_upto:
  "(\<forall>p. i \<le> p \<and> p \<le> j \<longrightarrow> hs p \<noteq> None) \<Longrightarrow>
   get_player_loop hs hw [i..j] =
     (if \<exists>p. i \<le> p \<and> p \<le> j \<and> hw \<in> set (rfids (the (hs p)))
      then Inr (LEAST p. i \<le> p \<and> p \<le> j \<and> hw \<in> set (rfids (the (hs p))))
      else Inl GameFailure)"
proof (induction i j rule: upto.induct)
  case (1 i j)
  show ?case
  proof (cases "i \<le> j")
    case False
    then show ?thesis by simp
  next
    case True
    from 1(2) True obtain h where h: "hs i = Some h" by auto
    show ?thesis
    proof (cases "hw \<in> set (rfids h)")
      case here: True
      have "(LEAST p. i \<le> p \<and> p \<le> j \<and> hw \<in> set (rfids (the (hs p)))) = i"
        using True h here by (intro Least_equality) auto
      moreover have "\<exists>p. i \<le> p \<and> p \<le> j \<and> hw \<in> set (rfids (the (hs p)))"
        using True h here by auto
      ultimately show ?thesis
        using True h here by (simp add: upto_rec1)
    next
      case nothere: False
      have shift: "(i \<le> p \<and> p \<le> j \<and> hw \<in> set (rfids (the (hs p)))) =
                   (i + 1 \<le> p \<and> p \<le> j \<and> hw \<in> set (rfids (the (hs p))))" for p
        using h nothere by (cases "p = i") auto
      have "get_player_loop hs hw [i..j] = get_player_loop hs hw [i + 1..j]"
        using True h nothere by (simp add: upto_rec1)
      also have "\<dots> = (if \<exists>p. i + 1 \<le> p \<and> p \<le> j \<and> hw \<in> set (rfids (the (hs p)))
          then Inr (LEAST p. i + 1 \<le> p \<and> p \<le> j \<and> hw \<in> set (rfids (the (hs p))))
          else Inl GameFailure)"
        using 1(1) [OF True] 1(2) by simp
      finally show ?thesis
        by (simp only: shift)
    qed
  qed
qed


text \<open>
  Claim C10. In a game where every player index below \<open>players\<close> has its hand,
  \<open>get_player\<close> returns the smallest index whose hand is bound to the tag, and raises
  \<open>GameFailure\<close> exactly when no hand is bound to it.
\<close>

theorem get_player_smallest:
  assumes "\<forall>p. 0 \<le> p \<and> p < players g \<longrightarrow> hands g p \<noteq> None"
  shows "get_player g hw =
     (if \<exists>p. 0 \<le> p \<and> p < players g \<and> bound_to g p hw
      then Inr (LEAST p. 0 \<le> p \<and> p < players g \<and> bound_to g p hw)
      else Inl GameFailure)"
proof -
  have same: "(0 \<le> p \<and> p \<le> players g - 1 \<and> hw \<in> set (rfids (the (hands g p)))) =
              (0 \<le> p \<and> p < players g \<and> bound_to g p hw)" for p
    using assms by (cases "hands g p") (auto simp: bound_to_def)
  have "get_player g hw = get_player_loop (hands g) hw [0..players g - 1]"
    by (simp add: get_player_def py_range_def)
  also have "\<dots> =
     (if \<exists>p. 0 \<le> p \<and> p \<le> players g - 1 \<and> hw \<in> set (rfids (the (hands g p)))
      then Inr (LEAST p. 0 \<le> p \<and> p \<le> players g - 1 \<and> hw \<in> set (rfids (the (hands g p))))
      else Inl GameFailure)"
    using assms by (intro get_player_loop_upto) auto
  finally show ?thesis
    by (simp only: same)
qed


text \<open>A tag bound to both hands of a two-player game resolves to player 0.\<close>

theorem get_player_smallest_witness:
  "get_player
     \<lparr>game_name = ''War'',
      deck = \<lparr>deck_name = ''standard'', deck_size = 0, deck_suits = [], deck_values = [], cards = []\<rparr>,
      graveyard = [],
      hands = [0 \<mapsto> \<lparr>active = [], dead = [], rfids = [7], turn = Some True\<rparr>,
               1 \<mapsto> \<lparr>active = [], dead = [], rfids = [7], turn = None\<rparr>],
      players = 2, req_hw = 2, in_play = []\<rparr> 7 = Inr 0"
proof -
  let ?g = "\<lparr>game_name = ''War'',
      deck = \<lparr>deck_name = ''standard'', deck_size = 0, deck_suits = [], deck_values = [], cards = []\<rparr>,
      graveyard = [],
      hands = [0 \<mapsto> \<lparr>active = [], dead = [], rfids = [7], turn = Some True\<rparr>,
               1 \<mapsto> \<lparr>active = [], dead = [], rfids = [7::int], turn = None\<rparr>],
      players = 2, req_hw = 2, in_play = []\<rparr>"
  have dealt: "\<forall>p. 0 \<le> p \<and> p < players ?g \<longrightarrow> hands ?g p \<noteq> None"
    by auto
  have first: "(LEAST p. 0 \<le> p \<and> p < players ?g \<and> bound_to ?g p 7) = 0"
    by (rule Least_equality) (simp_all add: bound_to_def)
  have "\<exists>p. 0 \<le> p \<and> p < players ?g \<and> bound_to ?g p 7"
    by (rule exI [of _ 0]) (simp add: bound_to_def)
  with get_player_smallest [OF dealt, of 7] first show ?thesis
    by simp
qed

section \<open>Example inputs\<close>

text \<open>
  Modelled from the spec: the description of the standard deck, which the game loads from
  \<open>game/lib/decks/standard.yaml\<close>, a file that is not among the sources. The specification
  gives 52 cards, suits grouped by color, and the ranks 2 to 10, J, Q, K, A; the ranks are
  held as strings, as the docstring of \<open>Card\<close> has them.
\<close>

definition standard_dict :: deck_dict where
  "standard_dict =
     \<lparr>dict_name = Some ''standard'', dict_size = Some 52,
      dict_suits = Some [[(''Red'', [''Hearts'', ''Diamonds''])],
                         [(''Black'', [''Spades'', ''Clubs''])]],
      dict_value_list = Some [Str ''2'', Str ''3'', Str ''4'', Str ''5'', Str ''6'', Str ''7'',
                              Str ''8'', Str ''9'', Str ''10'', Str ''J'', Str ''Q'', Str ''K'',
                              Str ''A'']\<rparr>"


text \<open>A description of a deck of four cards, for small examples.\<close>

definition small_dict :: deck_dict where
  "small_dict =
     \<lparr>dict_name = Some ''small'', dict_size = Some 4,
      dict_suits = Some [[(''Red'', [''Hearts''])], [(''Black'', [''Spades''])]],
      dict_value_list = Some [Str ''K'', Str ''5'']\<rparr>"

text \<open>The cards of the deck built from a description (none when the factory raises).\<close>

definition deck_of :: "deck_dict \<Rightarrow> card list" where
  "deck_of dd = (case CardDeck dd of Inl e \<Rightarrow> [] | Inr d \<Rightarrow> cards d)"


text \<open>
  A game in the middle of a round: player 0 has played the king of hearts and keeps the
  queen, player 1 has played the five of spades and keeps the seven.
\<close>

definition king_hearts :: card where
  "king_hearts = \<lparr>ident = 12, card_value = Str ''K'', card_suit = ''Hearts'', card_color = ''Red''\<rparr>"

definition queen_hearts :: card where
  "queen_hearts = \<lparr>ident = 11, card_value = Str ''Q'', card_suit = ''Hearts'', card_color = ''Red''\<rparr>"

definition five_spades :: card where
  "five_spades = \<lparr>ident = 30, card_value = Str ''5'', card_suit = ''Spades'', card_color = ''Black''\<rparr>"

definition seven_spades :: card where
  "seven_spades = \<lparr>ident = 32, card_value = Str ''7'', card_suit = ''Spades'', card_color = ''Black''\<rparr>"

definition mid_round :: game where
  "mid_round =
     \<lparr>game_name = ''War'',
      deck = \<lparr>deck_name = ''standard'', deck_size = 52, deck_suits = [], deck_values = [],
              cards = []\<rparr>,
      graveyard = [],
      hands = [0 \<mapsto> \<lparr>active = [queen_hearts], dead = [], rfids = [10], turn = Some True\<rparr>,
               1 \<mapsto> \<lparr>active = [seven_spades], dead = [], rfids = [20], turn = Some False\<rparr>],
      players = 2, req_hw = 2, in_play = []\<rparr>"

section \<open>The two-player game\<close>

lemma py_range_2: "py_range 2 = [0, 1]"
  by (simp add: py_range_def upto_rec1)

lemma get_player_two:
  assumes "players g = 2" "hands g 0 = Some h0" "hands g 1 = Some h1"
  shows "get_player g hw =
     (if hw \<in> set (rfids h0) then Inr 0
      else if hw \<in> set (rfids h1) then Inr 1 else Inl GameFailure)"
  using assms by (simp add: get_player_def py_range_2)

lemma is_turn_two:
  assumes "players g = 2" "hands g 0 = Some h0" "hands g 1 = Some h1"
  shows "is_turn g hw =
     (if hw \<in> set (rfids h0) then Inr (turn h0 = Some True)
      else if hw \<in> set (rfids h1) then Inr (turn h1 = Some True) else Inl GameFailure)"
  using assms by (simp add: is_turn_def get_player_two [OF assms] ebind_def)

lemma wait_turn_is_turn:
  "wait_turn g reads = Ok (hw, rest) \<Longrightarrow> is_turn g hw = Inr True"
proof (induction reads)
  case Nil
  then show ?case by simp
next
  case (Cons r rs)
  then show ?case
    by (cases "is_turn g r") (auto split: bool.splits if_splits)
qed

lemma switch_turns_two:
  assumes "players g = 2" "hands g 0 = Some h0" "hands g 1 = Some h1"
  shows "switch_turns g =
     Inr (g\<lparr>hands := (hands g)(0 \<mapsto> h0\<lparr>turn := Some (py_not (turn h0))\<rparr>,
                              1 \<mapsto> h1\<lparr>turn := Some (py_not (turn h1))\<rparr>)\<rparr>)"
  using assms by (simp add: switch_turns_def py_range_2)


section \<open>Distribution\<close>

lemma distribute_round:
  assumes "hands g 0 = Some h0" "hands g 1 = Some h1"
  shows "distribute g (- 1) [[(0, c0)], [(1, c1)]] =
     Inr (g\<lparr>hands := (hands g)(0 \<mapsto> h0\<lparr>active := active h0 @ [c0]\<rparr>,
                              1 \<mapsto> h1\<lparr>active := active h1 @ [c1]\<rparr>)\<rparr>)"
    and "distribute g 0 [[(0, c0)], [(1, c1)]] =
     Inr (g\<lparr>hands := (hands g)(0 \<mapsto> h0\<lparr>active := active h0 @ [c0], dead := dead h0 @ [c0, c1]\<rparr>,
                              1 \<mapsto> h1\<lparr>active := active h1 @ [c1]\<rparr>)\<rparr>)"
    and "distribute g 1 [[(0, c0)], [(1, c1)]] =
     Inr (g\<lparr>hands := (hands g)(0 \<mapsto> h0\<lparr>active := active h0 @ [c0]\<rparr>,
                              1 \<mapsto> h1\<lparr>active := active h1 @ [c1], dead := dead h1 @ [c0, c1]\<rparr>)\<rparr>)"
  using assms
  by (cases h0; cases h1;
      simp add: distribute_def append_dead_def append_active_def played_def ebind_def
        index_def getitem_def)+


text \<open>
  Claim C3, as amended. With a winner, both played cards are appended to the winner's dead
  list, player 0's card first; with or without a winner, each played card is appended to the
  back of its owner's active list (the end opposite to the one \<open>pop(0)\<close> draws from).
\<close>

theorem distribute_appends:
  assumes "hands g 0 = Some h0" "hands g 1 = Some h1"
  shows "distribute g (- 1) [[(0, c0)], [(1, c1)]] =
           Inr (g\<lparr>hands := (hands g)(0 \<mapsto> h0\<lparr>active := active h0 @ [c0]\<rparr>,
                                    1 \<mapsto> h1\<lparr>active := active h1 @ [c1]\<rparr>)\<rparr>) \<and>
         distribute g 0 [[(0, c0)], [(1, c1)]] =
           Inr (g\<lparr>hands := (hands g)(0 \<mapsto> h0\<lparr>active := active h0 @ [c0],
                                             dead := dead h0 @ [c0, c1]\<rparr>,
                                    1 \<mapsto> h1\<lparr>active := active h1 @ [c1]\<rparr>)\<rparr>) \<and>
         distribute g 1 [[(0, c0)], [(1, c1)]] =
           Inr (g\<lparr>hands := (hands g)(0 \<mapsto> h0\<lparr>active := active h0 @ [c0]\<rparr>,
                                    1 \<mapsto> h1\<lparr>active := active h1 @ [c1],
                                             dead := dead h1 @ [c0, c1]\<rparr>)\<rparr>)"
  using distribute_round [OF assms] by blast

theorem distribute_appends_witness:
  "distribute mid_round 0 [[(0, king_hearts)], [(1, five_spades)]] =
     Inr (mid_round\<lparr>hands :=
       [0 \<mapsto> \<lparr>active = [queen_hearts, king_hearts], dead = [king_hearts, five_spades],
              rfids = [10], turn = Some True\<rparr>,
        1 \<mapsto> \<lparr>active = [seven_spades, five_spades], dead = [],
              rfids = [20], turn = Some False\<rparr>]\<rparr>)"
  using distribute_appends [of mid_round
      "\<lparr>active = [queen_hearts], dead = [], rfids = [10], turn = Some True\<rparr>"
      "\<lparr>active = [seven_spades], dead = [], rfids = [20], turn = Some False\<rparr>"
      king_hearts five_spades]
  by (simp add: mid_round_def)

text \<open>
  The claim as stated fails: the king goes behind the queen that player 0 still holds, not in
  front of her.
\<close>

theorem distribute_not_to_front:
  "map_sum id (\<lambda>g. map_option active (hands g 0))
     (distribute mid_round 0 [[(0, king_hearts)], [(1, five_spades)]]) =
     Inr (Some [queen_hearts, king_hearts]) \<and>
   [queen_hearts, king_hearts] \<noteq> king_hearts # [queen_hearts]"
  by (simp add: distribute_round mid_round_def king_hearts_def queen_hearts_def)

section \<open>The deal\<close>

lemma register_done:
  "\<not> int (length (rfids h)) < n \<Longrightarrow> register h n reads = Ok (h, reads)"
  by (cases reads) simp_all

lemma create_hands_two:
  assumes "players g0 = 2" "req_hw g0 = 2"
  shows "create_hands g0 shuffled reads =
     (case reads of
        r0 # r1 # rest \<Rightarrow>
          Ok (g0\<lparr>deck := shuffle (deck g0) shuffled,
                 hands := (hands g0)
                   (0 \<mapsto> \<lparr>active = take (length shuffled div 2) shuffled, dead = [],
                          rfids = [r0], turn = Some True\<rparr>,
                    1 \<mapsto> \<lparr>active = drop (length shuffled div 2) shuffled, dead = [],
                          rfids = [r1], turn = None\<rparr>)\<rparr>, rest)
      | _ \<Rightarrow> Waiting)"
proof (cases reads)
  case Nil
  then show ?thesis
    using assms
    by (simp add: create_hands_def py_range_2 shuffle_def Let_def index_def Hand_def)
next
  case (Cons r0 rs)
  show ?thesis
  proof (cases rs)
    case Nil
    with Cons show ?thesis
      using assms
      by (simp add: create_hands_def py_range_2 shuffle_def Let_def index_def Hand_def)
  next
    case (Cons r1 rest)
    with \<open>reads = r0 # rs\<close> show ?thesis
      using assms
      by (simp add: create_hands_def py_range_2 shuffle_def Let_def index_def Hand_def
          slice_to_def slice_from_def nat_div_distrib register_done fun_upd_twist)
  qed
qed


text \<open>\<open>War()\<close> followed by \<open>create_hands()\<close>.\<close>

definition after_deal :: "deck_dict \<Rightarrow> card list \<Rightarrow> int list \<Rightarrow> (game \<times> int list) outcome" where
  "after_deal dd shuffled reads =
     (case War dd of Inl e \<Rightarrow> Raise e | Inr g0 \<Rightarrow> create_hands g0 shuffled reads)"

lemma after_deal_Ok:
  assumes "after_deal dd shuffled reads = Ok (g, rest)"
  shows "\<exists>r0 r1. reads = r0 # r1 # rest \<and> players g = 2 \<and>
           hands g 0 = Some \<lparr>active = take (length shuffled div 2) shuffled, dead = [],
                              rfids = [r0], turn = Some True\<rparr> \<and>
           hands g 1 = Some \<lparr>active = drop (length shuffled div 2) shuffled, dead = [],
                              rfids = [r1], turn = None\<rparr>"
proof -
  from assms obtain g0 where g0: "War dd = Inr g0" and
    deal: "create_hands g0 shuffled reads = Ok (g, rest)"
    by (auto simp: after_deal_def split: sum.splits)
  from g0 have "players g0 = 2" "req_hw g0 = 2"
    by (auto simp: War_def split: sum.splits)
  from deal show ?thesis
    unfolding create_hands_two [OF \<open>players g0 = 2\<close> \<open>req_hw g0 = 2\<close>]
    using \<open>players g0 = 2\<close> by (auto split: list.splits)
qed


section \<open>Plays and rounds\<close>

text \<open>At the start of a round the turn is player 0's alone.\<close>

lemma get_player_info_first:
  assumes two: "players g = 2" "hands g 0 = Some h0" "hands g 1 = Some h1"
    and turns: "turn h0 = Some True" "turn h1 \<noteq> Some True"
    and play: "get_player_info g reads = Ok (cur, g', rest)"
  shows "\<exists>c a. active h0 = c # a \<and> cur = [(0, c)] \<and> players g' = 2 \<and>
           hands g' 0 = Some (h0\<lparr>active := a, turn := Some False\<rparr>) \<and>
           hands g' 1 = Some (h1\<lparr>turn := Some True\<rparr>) \<and> length rest < length reads"
proof -
  from play obtain hw where wait: "wait_turn g reads = Ok (hw, rest)"
    by (auto simp: get_player_info_def split: outcome.splits sum.splits option.splits list.splits)
  from wait_turn_is_turn [OF wait] turns have who: "get_player g hw = Inr 0"
    by (auto simp: is_turn_two [OF two] get_player_two [OF two] split: if_splits)
  from play wait who two obtain c a where
    front: "active h0 = c # a" and cur: "cur = [(0, c)]" and
    switched: "switch_turns (g\<lparr>hands := (hands g)(0 \<mapsto> h0\<lparr>active := a\<rparr>)\<rparr>) = Inr g'"
    by (auto simp: get_player_info_def split: list.splits sum.splits)
  have "switch_turns (g\<lparr>hands := (hands g)(0 \<mapsto> h0\<lparr>active := a\<rparr>)\<rparr>) =
        Inr (g\<lparr>hands := (hands g)(0 \<mapsto> h0\<lparr>active := a\<rparr>)\<rparr>
               \<lparr>hands := (hands (g\<lparr>hands := (hands g)(0 \<mapsto> h0\<lparr>active := a\<rparr>)\<rparr>))
                  (0 \<mapsto> (h0\<lparr>active := a\<rparr>)\<lparr>turn := Some (py_not (turn (h0\<lparr>active := a\<rparr>)))\<rparr>,
                   1 \<mapsto> h1\<lparr>turn := Some (py_not (turn h1))\<rparr>)\<rparr>)"
    by (rule switch_turns_two) (simp_all add: two)
  with switched have g': "g' = g\<lparr>hands := (hands g)
      (0 \<mapsto> h0\<lparr>active := a, turn := Some (py_not (turn h0))\<rparr>,
       1 \<mapsto> h1\<lparr>turn := Some (py_not (turn h1))\<rparr>)\<rparr>"
    by simp
  have "py_not (turn h0) = False" "py_not (turn h1) = True"
    using turns by (auto simp: py_not_def split: option.splits)
  with g' front cur two wait_turn_shorter [OF wait] show ?thesis
    by simp
qed

lemma get_player_info_second:
  assumes two: "players g = 2" "hands g 0 = Some h0" "hands g 1 = Some h1"
    and turns: "turn h0 \<noteq> Some True" "turn h1 = Some True"
    and play: "get_player_info g reads = Ok (cur, g', rest)"
  shows "\<exists>c a. active h1 = c # a \<and> cur = [(1, c)] \<and> players g' = 2 \<and>
           hands g' 0 = Some (h0\<lparr>turn := Some True\<rparr>) \<and>
           hands g' 1 = Some (h1\<lparr>active := a, turn := Some False\<rparr>) \<and> length rest < length reads"
proof -
  from play obtain hw where wait: "wait_turn g reads = Ok (hw, rest)"
    by (auto simp: get_player_info_def split: outcome.splits sum.splits option.splits list.splits)
  from wait_turn_is_turn [OF wait] turns have who: "get_player g hw = Inr 1"
    by (auto simp: is_turn_two [OF two] get_player_two [OF two] split: if_splits)
  from play wait who two obtain c a where
    front: "active h1 = c # a" and cur: "cur = [(1, c)]" and
    switched: "switch_turns (g\<lparr>hands := (hands g)(1 \<mapsto> h1\<lparr>active := a\<rparr>)\<rparr>) = Inr g'"
    by (auto simp: get_player_info_def split: list.splits sum.splits)
  have "switch_turns (g\<lparr>hands := (hands g)(1 \<mapsto> h1\<lparr>active := a\<rparr>)\<rparr>) =
        Inr (g\<lparr>hands := (hands g)(1 \<mapsto> h1\<lparr>active := a\<rparr>)\<rparr>
               \<lparr>hands := (hands (g\<lparr>hands := (hands g)(1 \<mapsto> h1\<lparr>active := a\<rparr>)\<rparr>))
                  (0 \<mapsto> h0\<lparr>turn := Some (py_not (turn h0))\<rparr>,
                   1 \<mapsto> (h1\<lparr>active := a\<rparr>)\<lparr>turn := Some (py_not (turn (h1\<lparr>active := a\<rparr>)))\<rparr>)\<rparr>)"
    by (rule switch_turns_two) (simp_all add: two)
  with switched have g': "g' = g\<lparr>hands := (hands g)
      (0 \<mapsto> h0\<lparr>turn := Some (py_not (turn h0))\<rparr>,
       1 \<mapsto> h1\<lparr>active := a, turn := Some (py_not (turn h1))\<rparr>)\<rparr>"
    by simp
  have "py_not (turn h0) = True" "py_not (turn h1) = False"
    using turns by (auto simp: py_not_def split: option.splits)
  with g' front cur two wait_turn_shorter [OF wait] show ?thesis
    by simp
qed

lemma get_player_info_first_ok:
  assumes two: "players g = 2" "hands g 0 = Some h0" "hands g 1 = Some h1"
    and "turn h0 = Some True" "r0 \<in> set (rfids h0)" "active h0 \<noteq> []"
  shows "\<exists>cur g'. \<forall>rs. get_player_info g (r0 # rs) = Ok (cur, g', rs)"
proof -
  from assms obtain c a where front: "active h0 = c # a"
    by (cases "active h0") auto
  have "wait_turn g (r0 # rs) = Ok (r0, rs)" for rs
    using assms by (simp add: is_turn_two [OF two])
  moreover have "get_player g r0 = Inr 0"
    using assms by (simp add: get_player_two [OF two])
  moreover obtain g' where
    "switch_turns (g\<lparr>hands := (hands g)(0 \<mapsto> h0\<lparr>active := a\<rparr>)\<rparr>) = Inr g'"
    using two by (simp add: switch_turns_def py_range_2)
  ultimately have "get_player_info g (r0 # rs) = Ok ([(0, c)], g', rs)" for rs
    using two front by (simp add: get_player_info_def)
  then show ?thesis
    by blast
qed

lemma get_player_info_second_ok:
  assumes two: "players g = 2" "hands g 0 = Some h0" "hands g 1 = Some h1"
    and "turn h1 = Some True" "r1 \<in> set (rfids h1)" "r1 \<notin> set (rfids h0)" "active h1 \<noteq> []"
  shows "\<exists>cur g'. \<forall>rs. get_player_info g (r1 # rs) = Ok (cur, g', rs)"
proof -
  from assms obtain c a where front: "active h1 = c # a"
    by (cases "active h1") auto
  have "wait_turn g (r1 # rs) = Ok (r1, rs)" for rs
    using assms by (simp add: is_turn_two [OF two])
  moreover have "get_player g r1 = Inr 1"
    using assms by (simp add: get_player_two [OF two])
  moreover obtain g' where
    "switch_turns (g\<lparr>hands := (hands g)(1 \<mapsto> h1\<lparr>active := a\<rparr>)\<rparr>) = Inr g'"
    using two by (simp add: switch_turns_def py_range_2)
  ultimately have "get_player_info g (r1 # rs) = Ok ([(1, c)], g', rs)" for rs
    using two front by (simp add: get_player_info_def)
  then show ?thesis
    by blast
qed

lemma show_sizes_two:
  "hs 0 = Some h0 \<Longrightarrow> hs 1 = Some h1 \<Longrightarrow> show_sizes [0, 1] hs = Inr ()"
  by simp

text \<open>
  A round that starts with the turn at player 0 and runs to its end: both front cards are
  compared, and each goes to the back of its owner's active list; the winner's dead list
  takes both.
\<close>

lemma play_round_step:
  assumes two: "players g = 2" "hands g 0 = Some h0" "hands g 1 = Some h1"
    and turns: "turn h0 = Some True" "turn h1 \<noteq> Some True"
    and round: "play_round g reads = Ok (g', rest)"
  shows "\<exists>c0 a0 c1 a1 w.
           active h0 = c0 # a0 \<and> active h1 = c1 # a1 \<and>
           check_winner [[(0, c0)], [(1, c1)]] = Inr w \<and> (w = 0 \<or> w = 1 \<or> w = - 1) \<and>
           players g' = 2 \<and>
           hands g' 0 = Some (h0\<lparr>active := a0 @ [c0],
                                   dead := dead h0 @ (if w = 0 then [c0, c1] else []),
                                   turn := Some True\<rparr>) \<and>
           hands g' 1 = Some (h1\<lparr>active := a1 @ [c1],
                                   dead := dead h1 @ (if w = 1 then [c0, c1] else []),
                                   turn := Some False\<rparr>)"
proof -
  from round two(1) obtain cur1 g1 rest1 cur2 g2 w g3 where
    play1: "get_player_info g reads = Ok (cur1, g1, rest1)" and
    play2: "get_player_info g1 rest1 = Ok (cur2, g2, rest)" and
    winner: "check_winner [cur1, cur2] = Inr w" and
    dist: "distribute g2 w [cur1, cur2] = Inr g3" and
    g': "g' = g3"
    by (auto simp: play_round_def py_range_2 split: outcome.splits sum.splits)
  from get_player_info_first [OF two turns play1] obtain c0 a0 where
    h0: "active h0 = c0 # a0" and cur1: "cur1 = [(0, c0)]" and g1: "players g1 = 2"
      "hands g1 0 = Some (h0\<lparr>active := a0, turn := Some False\<rparr>)"
      "hands g1 1 = Some (h1\<lparr>turn := Some True\<rparr>)"
    by blast
  from get_player_info_second [OF g1 _ _ play2] obtain c1 a1 where
    h1: "active h1 = c1 # a1" and cur2: "cur2 = [(1, c1)]" and g2: "players g2 = 2"
      "hands g2 0 = Some (h0\<lparr>active := a0, turn := Some True\<rparr>)"
      "hands g2 1 = Some (h1\<lparr>active := a1, turn := Some False\<rparr>)"
    by auto
  from winner cur1 cur2 have w: "check_winner [[(0, c0)], [(1, c1)]] = Inr w"
    by simp
  with check_winner_cases [of c0 c1] have which: "w = 0 \<or> w = 1 \<or> w = - 1"
    by auto
  from which dist g2 cur1 cur2 g' have
    "players g' = 2 \<and>
     hands g' 0 = Some (h0\<lparr>active := a0 @ [c0],
                             dead := dead h0 @ (if w = 0 then [c0, c1] else []),
                             turn := Some True\<rparr>) \<and>
     hands g' 1 = Some (h1\<lparr>active := a1 @ [c1],
                             dead := dead h1 @ (if w = 1 then [c0, c1] else []),
                             turn := Some False\<rparr>)"
    by (cases h0; cases h1) (auto simp: distribute_round [OF g2(2,3)])
  with h0 h1 w which show ?thesis
    by blast
qed

lemma play_round_ok:
  assumes two: "players g = 2" "hands g 0 = Some h0" "hands g 1 = Some h1"
    and turns: "turn h0 = Some True" "turn h1 \<noteq> Some True"
    and tags: "r0 \<in> set (rfids h0)" "r1 \<in> set (rfids h1)" "r1 \<notin> set (rfids h0)"
    and fronts: "active h0 = c0 # a0" "active h1 = c1 # a1"
    and winner: "check_winner [[(0, c0)], [(1, c1)]] = Inr w"
  shows "\<exists>g'. \<forall>rs. play_round g (r0 # r1 # rs) = Ok (g', rs)"
proof -
  from get_player_info_first_ok [OF two turns(1) tags(1)] fronts
  obtain cur1 g1 where play1: "\<And>rs. get_player_info g (r0 # rs) = Ok (cur1, g1, rs)"
    by auto
  from get_player_info_first [OF two turns play1] fronts have
    cur1: "cur1 = [(0, c0)]" and g1: "players g1 = 2"
      "hands g1 0 = Some (h0\<lparr>active := a0, turn := Some False\<rparr>)"
      "hands g1 1 = Some (h1\<lparr>turn := Some True\<rparr>)"
    by auto
  from get_player_info_second_ok [OF g1, of r1] tags fronts
  obtain cur2 g2 where play2: "\<And>rs. get_player_info g1 (r1 # rs) = Ok (cur2, g2, rs)"
    by auto
  from get_player_info_second [OF g1 _ _ play2] fronts have
    cur2: "cur2 = [(1, c1)]" and g2: "players g2 = 2"
      "hands g2 0 = Some (h0\<lparr>active := a0, turn := Some True\<rparr>)"
      "hands g2 1 = Some (h1\<lparr>active := a1, turn := Some False\<rparr>)"
    by auto
  from check_winner_cases [of c0 c1] winner have which: "w = 0 \<or> w = 1 \<or> w = - 1"
    by auto
  then obtain g3 where dist: "distribute g2 w [[(0, c0)], [(1, c1)]] = Inr g3"
    using distribute_round [OF g2(2,3), of c0 c1] by auto
  with which g2 have "players g3 = 2 \<and> (\<exists>x y. hands g3 0 = Some x \<and> hands g3 1 = Some y)"
    using distribute_round [OF g2(2,3), of c0 c1] by auto
  then have "show_sizes (py_range (players g3)) (hands g3) = Inr ()"
    by (auto simp: py_range_2)
  with play1 play2 cur1 cur2 winner dist two(1)
  have "play_round g (r0 # r1 # rs) = Ok (g3, rs)" for rs
    by (simp add: play_round_def py_range_2)
  then show ?thesis
    by blast
qed

section \<open>Turns\<close>

text \<open>Both hands exist, and exactly one of them has \<open>turn\<close> equal to \<open>True\<close>.\<close>

definition one_turn :: "game \<Rightarrow> bool" where
  "one_turn g =
     (case (hands g 0, hands g 1) of
        (Some h0, Some h1) \<Rightarrow> (turn h0 = Some True) \<noteq> (turn h1 = Some True)
      | _ \<Rightarrow> False)"

text \<open>
  The states a game of War passes through from the deal on: the state the deal leaves, the
  state after any play, and the state after any distribution.
\<close>

inductive reachable :: "game \<Rightarrow> bool" where
  dealt: "after_deal dd shuffled reads = Ok (g, rest) \<Longrightarrow> reachable g"
| played: "reachable g \<Longrightarrow> get_player_info g reads = Ok (cur, g', rest) \<Longrightarrow> reachable g'"
| distributed: "reachable g \<Longrightarrow> distribute g winner current_round = Inr g' \<Longrightarrow> reachable g'"

lemma switch_turns_one_turn:
  assumes "players g = 2" "one_turn g"
  shows "\<exists>g'. switch_turns g = Inr g' \<and> players g' = 2 \<and> one_turn g'"
proof -
  from assms(2) obtain h0 h1 where hs: "hands g 0 = Some h0" "hands g 1 = Some h1"
    and excl: "(turn h0 = Some True) \<noteq> (turn h1 = Some True)"
    by (auto simp: one_turn_def split: option.splits)
  from excl have "py_not (turn h0) \<noteq> py_not (turn h1)"
    by (cases "turn h0"; cases "turn h1") (auto simp: py_not_def)
  then show ?thesis
    unfolding switch_turns_two [OF assms(1) hs] using assms(1)
    by (auto simp: one_turn_def)
qed

lemma get_player_info_one_turn:
  assumes "players g = 2" "one_turn g" "get_player_info g reads = Ok (cur, g', rest)"
  shows "players g' = 2 \<and> one_turn g'"
proof -
  from assms(2) obtain h0 h1 where hs: "hands g 0 = Some h0" "hands g 1 = Some h1"
    by (auto simp: one_turn_def split: option.splits)
  from assms(3) obtain hw p h c a where
    who: "get_player g hw = Inr p" and h: "hands g p = Some h" "active h = c # a" and
    switched: "switch_turns (g\<lparr>hands := (hands g)(p \<mapsto> h\<lparr>active := a\<rparr>)\<rparr>) = Inr g'"
    by (auto simp: get_player_info_def split: outcome.splits sum.splits option.splits list.splits)
  from who have "p = 0 \<or> p = 1"
    by (auto simp: get_player_two [OF assms(1) hs] split: if_splits)
  with assms(2) hs h have "one_turn (g\<lparr>hands := (hands g)(p \<mapsto> h\<lparr>active := a\<rparr>)\<rparr>)"
    by (auto simp: one_turn_def)
  from switch_turns_one_turn [OF _ this] switched assms(1) show ?thesis
    by auto
qed

lemma append_dead_turn:
  "append_dead hs p c = Inr hs' \<Longrightarrow> map_option turn (hs' q) = map_option turn (hs q)"
  by (auto simp: append_dead_def ebind_def split: option.splits sum.splits)

lemma append_active_turn:
  "append_active hs p c = Inr hs' \<Longrightarrow> map_option turn (hs' q) = map_option turn (hs q)"
  by (auto simp: append_active_def ebind_def split: option.splits sum.splits)

lemma distribute_turn:
  assumes "distribute g winner cr = Inr g'"
  shows "players g' = players g \<and> map_option turn (hands g' q) = map_option turn (hands g q)"
  using assms
  by (auto simp: distribute_def ebind_def append_dead_turn append_active_turn
      split: sum.splits if_splits)

lemma one_turn_cong:
  assumes "\<And>q. map_option turn (hands g' q) = map_option turn (hands g q)"
  shows "one_turn g' = one_turn g"
proof -
  have "map_option turn (hands g' 0) = map_option turn (hands g 0)"
       "map_option turn (hands g' 1) = map_option turn (hands g 1)"
    by (rule assms)+
  then show ?thesis
    by (cases "hands g 0"; cases "hands g 1"; cases "hands g' 0"; cases "hands g' 1")
       (auto simp: one_turn_def)
qed

lemma reachable_one_turn: "reachable g \<Longrightarrow> players g = 2 \<and> one_turn g"
proof (induction rule: reachable.induct)
  case (dealt dd shuffled reads g rest)
  from after_deal_Ok [OF dealt] show ?case
    by (auto simp: one_turn_def)
next
  case (played g reads cur g' rest)
  then show ?case
    using get_player_info_one_turn by blast
next
  case (distributed g winner current_round g')
  from distribute_turn [OF distributed.hyps(2)] one_turn_cong [of g' g] distributed.IH
  show ?case by simp
qed


text \<open>
  Claim C5. In every state from the deal on, exactly one of the two hands has its turn flag
  equal to \<open>True\<close>; and \<open>switch_turns\<close>, in a two-player game, leads from a state with that
  property to a state with it.
\<close>

theorem turn_exclusive:
  "(reachable g \<longrightarrow> one_turn g) \<and>
   (players g = 2 \<and> one_turn g \<longrightarrow> (\<exists>g'. switch_turns g = Inr g' \<and> one_turn g'))"
  using reachable_one_turn [of g] switch_turns_one_turn [of g] by blast

theorem turn_exclusive_witness:
  "\<exists>g rest. after_deal small_dict (deck_of small_dict) [10, 20] = Ok (g, rest) \<and>
      one_turn g \<and> (\<exists>g'. switch_turns g = Inr g' \<and> one_turn g')"
proof -
  have "\<exists>g rest. after_deal small_dict (deck_of small_dict) [10, 20] = Ok (g, rest)"
    by (simp add: after_deal_def War_def create_hands_two deck_of_def small_dict_def
        CardDeck_def create_deck_def)
  then obtain g rest where
    deal: "after_deal small_dict (deck_of small_dict) [10, 20] = Ok (g, rest)"
    by blast
  then have "reachable g"
    by (rule reachable.dealt)
  moreover from after_deal_Ok [OF deal] have "players g = 2"
    by blast
  ultimately have "one_turn g \<and> (\<exists>g'. switch_turns g = Inr g' \<and> one_turn g')"
    using turn_exclusive [of g] by blast
  with deal show ?thesis
    by blast
qed

section \<open>The active lists across rounds\<close>

lemma play_rounds_rotate:
  assumes "players g = 2" "hands g 0 = Some h0" "hands g 1 = Some h1"
    and "turn h0 = Some True" "turn h1 \<noteq> Some True"
    and "play_rounds n g reads = Ok (g', rest)"
  shows "\<exists>h0' h1'. players g' = 2 \<and> hands g' 0 = Some h0' \<and> hands g' 1 = Some h1' \<and>
           turn h0' = Some True \<and> turn h1' \<noteq> Some True \<and>
           active h0' = rotate n (active h0) \<and> active h1' = rotate n (active h1)"
  using assms
proof (induction n arbitrary: g reads h0 h1)
  case 0
  then show ?case by simp
next
  case (Suc n)
  from Suc.prems(6) obtain g1 rest1 where
    first: "play_round g reads = Ok (g1, rest1)" and
    later: "play_rounds n g1 rest1 = Ok (g', rest)"
    by (auto split: outcome.splits)
  from play_round_step [OF Suc.prems(1-5) first] obtain k0 k1 where
    g1: "players g1 = 2" "hands g1 0 = Some k0" "hands g1 1 = Some k1"
      "turn k0 = Some True" "turn k1 \<noteq> Some True" and
    rot: "active k0 = rotate1 (active h0)" "active k1 = rotate1 (active h1)"
    by fastforce
  from Suc.IH [OF g1 later] rot show ?case
    by (simp add: rotate1_rotate_swap)
qed

text \<open>
  Claim C9. From the deal on, after any number of complete rounds, whatever tags the reader
  delivers, each hand's active list is its list at the deal rotated by the number of rounds:
  every round takes the front card and puts it at the back. The length never changes.
\<close>

theorem active_rotates:
  assumes "after_deal dd shuffled reads0 = Ok (g, reads)"
    and "play_rounds n g reads = Ok (g', rest)"
  shows "\<exists>h0 h1 h0' h1'.
           hands g 0 = Some h0 \<and> hands g 1 = Some h1 \<and>
           hands g' 0 = Some h0' \<and> hands g' 1 = Some h1' \<and>
           active h0' = rotate n (active h0) \<and> active h1' = rotate n (active h1) \<and>
           length (active h0') = length (active h0) \<and> length (active h1') = length (active h1)"
proof -
  from after_deal_Ok [OF assms(1)] obtain h0 h1 where
    g: "players g = 2" "hands g 0 = Some h0" "hands g 1 = Some h1"
      "turn h0 = Some True" "turn h1 \<noteq> Some True"
    by fastforce
  from play_rounds_rotate [OF g assms(2)] g(2,3) show ?thesis
    by fastforce
qed


text \<open>The definitions a concrete run is evaluated with.\<close>

lemmas run_defs =
  after_deal_def War_def create_hands_two deck_of_def CardDeck_def create_deck_def
  play_round_def py_range_2 get_player_info_def is_turn_def get_player_def ebind_def
  switch_turns_def check_winner_def index_def getitem_def translate_def translate_A_K_def
  distribute_def append_dead_def append_active_def played_def py_not_def shuffle_def

theorem active_rotates_witness:
  "\<exists>g reads g' rest.
      after_deal small_dict (take 2 (deck_of small_dict) @ rev (drop 2 (deck_of small_dict)))
        [10, 20, 10, 20, 10, 20] = Ok (g, reads) \<and>
      play_rounds 2 g reads = Ok (g', rest) \<and>
      (\<exists>h0 h1 h0' h1'.
           hands g 0 = Some h0 \<and> hands g 1 = Some h1 \<and>
           hands g' 0 = Some h0' \<and> hands g' 1 = Some h1' \<and>
           active h0' = rotate 2 (active h0) \<and> active h1' = rotate 2 (active h1) \<and>
           length (active h0') = length (active h0) \<and> length (active h1') = length (active h1))"
proof -
  have "\<exists>g reads g' rest.
      after_deal small_dict (take 2 (deck_of small_dict) @ rev (drop 2 (deck_of small_dict)))
        [10, 20, 10, 20, 10, 20] = Ok (g, reads) \<and>
      play_rounds 2 g reads = Ok (g', rest)"
  proof -
    have "play_rounds 2 = play_rounds (Suc (Suc 0))"
      by (simp add: numeral_2_eq_2)
    then show ?thesis
      by (simp add: run_defs small_dict_def)
  qed
  then obtain g reads g' rest where
    deal: "after_deal small_dict (take 2 (deck_of small_dict) @ rev (drop 2 (deck_of small_dict)))
        [10, 20, 10, 20, 10, 20] = Ok (g, reads)" and
    rounds: "play_rounds 2 g reads = Ok (g', rest)"
    by blast
  from active_rotates [OF deal rounds] deal rounds show ?thesis
    by blast
qed

section \<open>The size of the piles\<close>

text \<open>
  The number of cards in a player's two lists, the player's dead list, and the round the
  next two plays form.
\<close>

definition pile_total :: "game \<Rightarrow> int \<Rightarrow> nat" where
  "pile_total g p = (case hands g p of None \<Rightarrow> 0 | Some h \<Rightarrow> length (active h) + length (dead h))"

definition won_pile :: "game \<Rightarrow> int \<Rightarrow> card list" where
  "won_pile g p = (case hands g p of None \<Rightarrow> [] | Some h \<Rightarrow> dead h)"

definition next_round :: "game \<Rightarrow> (int \<times> card) list list option" where
  "next_round g =
     (case (hands g 0, hands g 1) of
        (Some h0, Some h1) \<Rightarrow>
          (case (active h0, active h1) of
             (c0 # a0, c1 # a1) \<Rightarrow> Some [[(0, c0)], [(1, c1)]]
           | _ \<Rightarrow> None)
      | _ \<Rightarrow> None)"

text \<open>
  Claim C2, as amended. Right after every deal a hand holds its share of the deck in its two
  lists: the deck size divided by two for player 0, the rest for player 1. Whenever a round
  completes after any number of complete rounds, it is played with the two front cards:
  when it is a tie the number of cards in each hand's two lists is unchanged and so are
  both dead lists; when it has a winner the two cards played, player 0's first, are appended
  to the winner's dead list and the loser's dead list is unchanged.
\<close>

theorem pile_totals:
  assumes "after_deal dd shuffled reads0 = Ok (g, reads)"
  shows "pile_total g 0 = length shuffled div 2 \<and>
         pile_total g 1 = length shuffled - length shuffled div 2 \<and>
         (\<forall>n g1 reads1 g2 reads2.
            play_rounds n g reads = Ok (g1, reads1) \<and> play_round g1 reads1 = Ok (g2, reads2) \<longrightarrow>
            (\<exists>c0 c1 w.
               next_round g1 = Some [[(0, c0)], [(1, c1)]] \<and>
               check_winner [[(0, c0)], [(1, c1)]] = Inr w \<and>
               (w = 0 \<or> w = 1 \<or> w = - 1) \<and>
               (w = - 1 \<longrightarrow>
                  pile_total g2 0 = pile_total g1 0 \<and> pile_total g2 1 = pile_total g1 1) \<and>
               won_pile g2 0 = won_pile g1 0 @ (if w = 0 then [c0, c1] else []) \<and>
               won_pile g2 1 = won_pile g1 1 @ (if w = 1 then [c0, c1] else [])))"
proof (intro conjI allI impI)
  from after_deal_Ok [OF assms] obtain h0 h1 where
    g: "players g = 2" "hands g 0 = Some h0" "hands g 1 = Some h1"
      "turn h0 = Some True" "turn h1 \<noteq> Some True" and
    piles: "active h0 = take (length shuffled div 2) shuffled" "dead h0 = []"
      "active h1 = drop (length shuffled div 2) shuffled" "dead h1 = []"
    by fastforce
  have "length shuffled div 2 \<le> length shuffled"
    by simp
  then have half: "min (length shuffled) (length shuffled div 2) = length shuffled div 2"
    by (rule min_absorb2)
  from g piles half show "pile_total g 0 = length shuffled div 2"
    by (simp add: pile_total_def)
  from g piles show "pile_total g 1 = length shuffled - length shuffled div 2"
    by (simp add: pile_total_def)
  fix n g1 reads1 g2 reads2
  assume "play_rounds n g reads = Ok (g1, reads1) \<and> play_round g1 reads1 = Ok (g2, reads2)"
  then have rounds: "play_rounds n g reads = Ok (g1, reads1)" and
    round: "play_round g1 reads1 = Ok (g2, reads2)"
    by simp_all
  from play_rounds_rotate [OF g rounds] obtain k0 k1 where
    g1: "players g1 = 2" "hands g1 0 = Some k0" "hands g1 1 = Some k1"
      "turn k0 = Some True" "turn k1 \<noteq> Some True"
    by blast
  from play_round_step [OF g1 round] obtain c0 a0 c1 a1 w where
    fronts: "active k0 = c0 # a0" "active k1 = c1 # a1" and
    w: "check_winner [[(0, c0)], [(1, c1)]] = Inr w" "w = 0 \<or> w = 1 \<or> w = - 1" and
    g2: "hands g2 0 = Some (k0\<lparr>active := a0 @ [c0],
                                   dead := dead k0 @ (if w = 0 then [c0, c1] else []),
                                   turn := Some True\<rparr>)"
        "hands g2 1 = Some (k1\<lparr>active := a1 @ [c1],
                                   dead := dead k1 @ (if w = 1 then [c0, c1] else []),
                                   turn := Some False\<rparr>)"
    by blast
  have "next_round g1 = Some [[(0, c0)], [(1, c1)]]"
    using g1 fronts by (simp add: next_round_def)
  moreover have "w = - 1 \<longrightarrow>
      pile_total g2 0 = pile_total g1 0 \<and> pile_total g2 1 = pile_total g1 1"
    using g1 g2 fronts by (simp add: pile_total_def)
  moreover have "won_pile g2 0 = won_pile g1 0 @ (if w = 0 then [c0, c1] else [])"
    "won_pile g2 1 = won_pile g1 1 @ (if w = 1 then [c0, c1] else [])"
    using g1 g2 by (simp_all add: won_pile_def)
  ultimately show "\<exists>c0 c1 w.
               next_round g1 = Some [[(0, c0)], [(1, c1)]] \<and>
               check_winner [[(0, c0)], [(1, c1)]] = Inr w \<and>
               (w = 0 \<or> w = 1 \<or> w = - 1) \<and>
               (w = - 1 \<longrightarrow>
                  pile_total g2 0 = pile_total g1 0 \<and> pile_total g2 1 = pile_total g1 1) \<and>
               won_pile g2 0 = won_pile g1 0 @ (if w = 0 then [c0, c1] else []) \<and>
               won_pile g2 1 = won_pile g1 1 @ (if w = 1 then [c0, c1] else [])"
    using w by blast
qed

text \<open>
  A deal of the four-card deck followed by two rounds: the first goes to player 0 with the
  king against the five, the second to player 1 with the five against the king.
\<close>

theorem pile_totals_witness:
  "\<exists>g reads.
      after_deal small_dict (take 2 (deck_of small_dict) @ rev (drop 2 (deck_of small_dict)))
        [10, 20, 10, 20, 10, 20] = Ok (g, reads) \<and>
      pile_total g 0 =
        length (take 2 (deck_of small_dict) @ rev (drop 2 (deck_of small_dict))) div 2 \<and>
      pile_total g 1 =
        length (take 2 (deck_of small_dict) @ rev (drop 2 (deck_of small_dict))) -
        length (take 2 (deck_of small_dict) @ rev (drop 2 (deck_of small_dict))) div 2 \<and>
      (\<exists>g1 reads1 g2 reads2.
         play_rounds 1 g reads = Ok (g1, reads1) \<and>
         play_round g1 reads1 = Ok (g2, reads2) \<and>
         (\<exists>c0 c1 w.
            next_round g1 = Some [[(0, c0)], [(1, c1)]] \<and>
            check_winner [[(0, c0)], [(1, c1)]] = Inr w \<and>
            (w = 0 \<or> w = 1 \<or> w = - 1) \<and>
            (w = - 1 \<longrightarrow>
               pile_total g2 0 = pile_total g1 0 \<and> pile_total g2 1 = pile_total g1 1) \<and>
            won_pile g2 0 = won_pile g1 0 @ (if w = 0 then [c0, c1] else []) \<and>
            won_pile g2 1 = won_pile g1 1 @ (if w = 1 then [c0, c1] else [])))"
proof -
  have "\<exists>g reads g1 reads1 g2 reads2.
      after_deal small_dict (take 2 (deck_of small_dict) @ rev (drop 2 (deck_of small_dict)))
        [10, 20, 10, 20, 10, 20] = Ok (g, reads) \<and>
      play_rounds 1 g reads = Ok (g1, reads1) \<and>
      play_round g1 reads1 = Ok (g2, reads2)"
    by (simp add: run_defs small_dict_def)
  then obtain g reads g1 reads1 g2 reads2 where
    deal: "after_deal small_dict (take 2 (deck_of small_dict) @ rev (drop 2 (deck_of small_dict)))
        [10, 20, 10, 20, 10, 20] = Ok (g, reads)" and
    rounds: "play_rounds 1 g reads = Ok (g1, reads1)" and
    round: "play_round g1 reads1 = Ok (g2, reads2)"
    by blast
  from pile_totals [OF deal] deal rounds round show ?thesis
    by blast
qed

text \<open>
  The deal conjuncts need no round to complete: with the same tag registered for both hands
  the deal completes and holds its shares, though player 1 can never play.
\<close>

lemma deal_with_one_tag:
  "\<exists>g. after_deal small_dict (deck_of small_dict) [10, 10] = Ok (g, []) \<and>
        pile_total g 0 = 2 \<and> pile_total g 1 = 2 \<and>
        play_round g [10, 10, 10] = Waiting"
  by (simp add: run_defs small_dict_def pile_total_def)

text \<open>
  The claim as stated fails. The standard deck with its first two cards exchanged is dealt;
  in the first round player 0 plays the three of hearts and player 1 the two of spades.
  Player 0 held 26 cards in the two lists before the round and holds 28 after it.
\<close>

theorem pile_total_grows:
  "(case after_deal standard_dict
           (rev (take 2 (deck_of standard_dict)) @ drop 2 (deck_of standard_dict))
           [10, 20] of
      Ok (g, reads) \<Rightarrow>
        (case play_round g [10, 20] of
           Ok (g', rest) \<Rightarrow> Some (pile_total g 0, pile_total g' 0)
         | Raise e \<Rightarrow> None
         | Waiting \<Rightarrow> None)
    | Raise e \<Rightarrow> None
    | Waiting \<Rightarrow> None) = Some (52 div 2, 52 div 2 + 2)"
  by (simp add: run_defs standard_dict_def pile_total_def)

section \<open>The end of the game\<close>

text \<open>
  A pair of cards, player 0's first, that \<open>check_winner\<close> declares a tie, and one to which
  it gives a winner.
\<close>

definition tie :: "card \<times> card \<Rightarrow> bool" where
  "tie p = (check_winner [[(0, fst p)], [(1, snd p)]] = Inr (- 1))"

definition decided :: "card \<times> card \<Rightarrow> bool" where
  "decided p = (check_winner [[(0, fst p)], [(1, snd p)]] \<in> {Inr 0, Inr 1})"

text \<open>
  The cards of the two active lists paired by position, the number of cards in the two dead
  lists, and the tags read when for \<open>n\<close> rounds each player presents a tag in turn.
\<close>

definition pairs :: "game \<Rightarrow> (card \<times> card) list" where
  "pairs g =
     (case (hands g 0, hands g 1) of
        (Some h0, Some h1) \<Rightarrow> zip (active h0) (active h1)
      | _ \<Rightarrow> [])"

definition won_cards :: "game \<Rightarrow> nat" where
  "won_cards g =
     (case (hands g 0, hands g 1) of
        (Some h0, Some h1) \<Rightarrow> length (dead h0) + length (dead h1)
      | _ \<Rightarrow> 0)"

definition plays :: "int \<Rightarrow> int \<Rightarrow> nat \<Rightarrow> int list" where
  "plays r0 r1 n = concat (replicate n [r0, r1])"

lemma same_value_tie: "card_value c0 = card_value c1 \<Longrightarrow> tie (c0, c1)"
  by (cases "translate (card_value c1)")
     (simp_all add: tie_def check_winner_plays ebind_def str_less_irrefl)

text \<open>All pairs tie: the loop never ends.\<close>

lemma start_all_ties:
  assumes "players g = 2" "hands g 0 = Some h0" "hands g 1 = Some h1"
    and "turn h0 = Some True" "turn h1 \<noteq> Some True"
    and "length (dead h0) < 52" "length (dead h1) < 52"
    and "length (active h0) = length (active h1)"
    and "\<forall>p \<in> set (zip (active h0) (active h1)). tie p"
  shows "start g reads \<noteq> Ok res"
  using assms
proof (induction g reads arbitrary: h0 h1 rule: start.induct)
  case (1 g reads)
  have cond: "loop_cond g = Inr True"
    using "1.prems" by (simp add: loop_cond_def)
  show ?case
  proof (cases "play_round g reads")
    case (Ok x)
    obtain g' rest where x: "x = (g', rest)"
      by (cases x)
    from play_round_step [OF "1.prems"(1-5) Ok [unfolded x]] obtain c0 a0 c1 a1 w where
      fronts: "active h0 = c0 # a0" "active h1 = c1 # a1" and
      w: "check_winner [[(0, c0)], [(1, c1)]] = Inr w" and
      g': "players g' = 2"
        "hands g' 0 = Some (h0\<lparr>active := a0 @ [c0],
                                  dead := dead h0 @ (if w = 0 then [c0, c1] else []),
                                  turn := Some True\<rparr>)"
        "hands g' 1 = Some (h1\<lparr>active := a1 @ [c1],
                                  dead := dead h1 @ (if w = 1 then [c0, c1] else []),
                                  turn := Some False\<rparr>)"
      by blast
    from "1.prems"(9) fronts have "tie (c0, c1)"
      by simp
    with w have tied: "w = - 1"
      by (simp add: tie_def)
    have len: "length a0 = length a1"
      using "1.prems"(8) fronts by simp
    have "start g' rest \<noteq> Ok res"
    proof (rule "1.IH" [OF cond refl Ok x [symmetric] g'])
      show "\<forall>p\<in>set (zip (active (h0\<lparr>active := a0 @ [c0],
                                  dead := dead h0 @ (if w = 0 then [c0, c1] else []),
                                  turn := Some True\<rparr>))
                          (active (h1\<lparr>active := a1 @ [c1],
                                  dead := dead h1 @ (if w = 1 then [c0, c1] else []),
                                  turn := Some False\<rparr>))). tie p"
        using "1.prems"(9) fronts len by auto
    qed (use "1.prems" tied len in simp_all)
    with cond Ok x show ?thesis
      by (simp add: start.simps [of g reads])
  next
    case (Raise e)
    with cond show ?thesis
      by (simp add: start.simps [of g reads])
  next
    case Waiting
    with cond show ?thesis
      by (simp add: start.simps [of g reads])
  qed
qed

lemma plays_Suc: "plays r0 r1 (Suc n) = r0 # r1 # plays r0 r1 n"
  by (simp add: plays_def)

lemma tie_or_decided:
  "check_winner [[(0, fst p)], [(1, snd p)]] = Inr w \<Longrightarrow> tie p \<or> decided p"
  using check_winner_cases [of "fst p" "snd p"] by (auto simp: tie_def decided_def)

lemma start_decides:
  fixes r0 r1 :: int
  assumes "players g = 2" "hands g 0 = Some h0" "hands g 1 = Some h1"
    and "turn h0 = Some True" "turn h1 \<noteq> Some True"
    and "r0 \<in> set (rfids h0)" "r1 \<in> set (rfids h1)" "r1 \<notin> set (rfids h0)"
    and "length (active h0) = length (active h1)"
    and "\<forall>p \<in> set (zip (active h0) (active h1)). tie p \<or> decided p"
    and "\<exists>p \<in> set (zip (active h0) (active h1)). \<not> tie p"
    and "even (length (dead h0))" "even (length (dead h1))"
    and "length (dead h0) \<le> 52" "length (dead h1) \<le> 52"
    and "length (dead h0) < 52 \<or> length (dead h1) < 52"
  shows "\<exists>n w g' hw hl. start g (plays r0 r1 n) = Ok (Some w, g') \<and> (w = 0 \<or> w = 1) \<and>
           hands g' w = Some hw \<and> hands g' (1 - w) = Some hl \<and>
           length (dead hw) = 52 \<and> length (dead hl) < 52"
  using assms
proof (induction g arbitrary: h0 h1
    rule: wf_induct_rule [OF wf_measures
      [of "[\<lambda>g. 104 - won_cards g, \<lambda>g. length (takeWhile tie (pairs g))]"]])
  case (1 g)
  note two = "1.prems"(1-3) and turns = "1.prems"(4,5) and tags = "1.prems"(6-8)
  show ?case
  proof (cases "length (dead h0) < 52 \<and> length (dead h1) < 52")
    case False
    with two have cond: "loop_cond g = Inr False"
      by (auto simp: loop_cond_def)
    let ?w = "if 52 \<le> length (dead h0) then 0 else 1 :: int"
    from two False have "announce (py_range (players g)) (hands g) = Inr (Some ?w)"
      by (auto simp: py_range_2)
    with cond have "start g (plays r0 r1 0) = Ok (Some ?w, g)"
      by (simp add: start.simps [of g])
    moreover from False "1.prems"(14-16) two have
      "(?w = 0 \<or> ?w = 1) \<and>
       (\<exists>hw hl. hands g ?w = Some hw \<and> hands g (1 - ?w) = Some hl \<and>
         length (dead hw) = 52 \<and> length (dead hl) < 52)"
      by auto
    ultimately show ?thesis
      by blast
  next
    case True
    with two have cond: "loop_cond g = Inr True"
      by (simp add: loop_cond_def)
    from "1.prems"(11) obtain c0 a0 c1 a1 where
      fronts: "active h0 = c0 # a0" "active h1 = c1 # a1"
      by (cases "active h0"; cases "active h1") auto
    with "1.prems"(9) have len: "length a0 = length a1"
      by simp
    from "1.prems"(10) fronts obtain w where
      w: "check_winner [[(0, c0)], [(1, c1)]] = Inr w"
      by (auto simp: tie_def decided_def)
    from play_round_ok [OF two turns tags fronts w] obtain g' where
      round: "\<And>rs. play_round g (r0 # r1 # rs) = Ok (g', rs)"
      by blast
    from play_round_step [OF two turns round] fronts w have
      which: "w = 0 \<or> w = 1 \<or> w = - 1" and
      g': "players g' = 2"
        "hands g' 0 = Some (h0\<lparr>active := a0 @ [c0],
                                  dead := dead h0 @ (if w = 0 then [c0, c1] else []),
                                  turn := Some True\<rparr>)"
        "hands g' 1 = Some (h1\<lparr>active := a1 @ [c1],
                                  dead := dead h1 @ (if w = 1 then [c0, c1] else []),
                                  turn := Some False\<rparr>)"
      by auto
    have zip': "zip (a0 @ [c0]) (a1 @ [c1]) = zip a0 a1 @ [(c0, c1)]"
      using len by simp
    have won: "won_cards g = length (dead h0) + length (dead h1)"
      "won_cards g' = length (dead h0) + length (dead h1) + (if w = - 1 then 0 else 2)"
      using two g' which by (auto simp: won_cards_def)
    have pairs: "pairs g = (c0, c1) # zip a0 a1" "pairs g' = zip a0 a1 @ [(c0, c1)]"
      using two g' fronts zip' by (simp_all add: pairs_def)
    have smaller: "(g', g) \<in> measures [\<lambda>g. 104 - won_cards g, \<lambda>g. length (takeWhile tie (pairs g))]"
    proof (cases "w = - 1")
      case False
      with won True have "104 - won_cards g' < 104 - won_cards g"
        by auto
      then show ?thesis
        by simp
    next
      case tied: True
      with w have "tie (c0, c1)"
        by (simp add: tie_def)
      with "1.prems"(11) fronts obtain p where "p \<in> set (zip a0 a1)" "\<not> tie p"
        by auto
      then have "takeWhile tie (zip a0 a1 @ [(c0, c1)]) = takeWhile tie (zip a0 a1)"
        by (rule takeWhile_append1)
      with \<open>tie (c0, c1)\<close> pairs won tied show ?thesis
        by simp
    qed
    have "\<exists>n w g'' hw hl. start g' (plays r0 r1 n) = Ok (Some w, g'') \<and> (w = 0 \<or> w = 1) \<and>
           hands g'' w = Some hw \<and> hands g'' (1 - w) = Some hl \<and>
           length (dead hw) = 52 \<and> length (dead hl) < 52"
    proof (rule "1.IH" [OF smaller g'])
      show "\<forall>p\<in>set (zip (active (h0\<lparr>active := a0 @ [c0],
                                  dead := dead h0 @ (if w = 0 then [c0, c1] else []),
                                  turn := Some True\<rparr>))
                          (active (h1\<lparr>active := a1 @ [c1],
                                  dead := dead h1 @ (if w = 1 then [c0, c1] else []),
                                  turn := Some False\<rparr>))). tie p \<or> decided p"
        using "1.prems"(10) fronts zip' by auto
      show "\<exists>p\<in>set (zip (active (h0\<lparr>active := a0 @ [c0],
                                  dead := dead h0 @ (if w = 0 then [c0, c1] else []),
                                  turn := Some True\<rparr>))
                          (active (h1\<lparr>active := a1 @ [c1],
                                  dead := dead h1 @ (if w = 1 then [c0, c1] else []),
                                  turn := Some False\<rparr>))). \<not> tie p"
        using "1.prems"(11) fronts zip' by auto
      show "length (dead (h0\<lparr>active := a0 @ [c0],
                                  dead := dead h0 @ (if w = 0 then [c0, c1] else []),
                                  turn := Some True\<rparr>)) \<le> 52"
        using True "1.prems"(12) by (auto elim!: evenE)
      show "length (dead (h1\<lparr>active := a1 @ [c1],
                                  dead := dead h1 @ (if w = 1 then [c0, c1] else []),
                                  turn := Some False\<rparr>)) \<le> 52"
        using True "1.prems"(13) by (auto elim!: evenE)
    qed (use "1.prems" True len which in auto)
    then obtain n v g'' hw hl where
      run: "start g' (plays r0 r1 n) = Ok (Some v, g'')" and
      post: "v = 0 \<or> v = 1" "hands g'' v = Some hw" "hands g'' (1 - v) = Some hl"
        "length (dead hw) = 52" "length (dead hl) < 52"
      by blast
    have "start g (plays r0 r1 (Suc n)) = start g' (plays r0 r1 n)"
      using cond round by (simp add: start.simps [of g] plays_Suc)
    with run have "start g (plays r0 r1 (Suc n)) = Ok (Some v, g'')"
      by simp
    with post show ?thesis
      by (intro exI [of _ "Suc n"] exI [of _ v] exI [of _ g''] exI [of _ hw] exI [of _ hl])
        simp
  qed
qed

lemma translate_Str: "\<exists>t. translate (Str s) = Str t"
  by (simp add: translate_def translate_A_K_def)

lemma strings_compare:
  assumes "card_value c0 = Str s0" "card_value c1 = Str s1"
  shows "tie (c0, c1) \<or> decided (c0, c1)"
proof -
  from translate_Str [of s0] translate_Str [of s1] obtain t0 t1 where
    "translate (Str s0) = Str t0" "translate (Str s1) = Str t1"
    by blast
  with assms str_less_total [of t0 t1] show ?thesis
    by (auto simp: tie_def decided_def check_winner_plays ebind_def)
qed

lemma standard_deck_facts:
  "length (deck_of standard_dict) = 52"
  "map card_value (take 26 (deck_of standard_dict)) = map card_value (drop 26 (deck_of standard_dict))"
  "list_all (\<lambda>c. \<exists>s. card_value c = Str s) (deck_of standard_dict)"
  by (simp_all add: deck_of_def CardDeck_def create_deck_def standard_dict_def)

lemma War_standard:
  "\<exists>g0. War standard_dict = Inr g0 \<and> players g0 = 2 \<and> req_hw g0 = 2"
  by (simp add: War_def CardDeck_def standard_dict_def)

lemma same_values_tie:
  assumes "map card_value xs = map card_value ys" "p \<in> set (zip xs ys)"
  shows "tie p"
proof -
  from assms(2) obtain n where n: "xs ! n = fst p" "ys ! n = snd p" "n < length xs" "n < length ys"
    by (auto simp: in_set_zip)
  from assms(1) have "map card_value xs ! n = map card_value ys ! n"
    by simp
  with n have "card_value (fst p) = card_value (snd p)"
    by simp
  then have "tie (fst p, snd p)"
    by (rule same_value_tie)
  then show ?thesis
    by simp
qed


text \<open>
  The claim as stated fails. When the shuffle leaves the standard deck in the order in which
  it was built, the deal completes and the two hands hold the same ranks in the same order:
  every round is a tie, no card is ever won, and whatever tags the reader delivers \<open>start\<close>
  does not return.
\<close>

theorem standard_deck_never_ends:
  "length (deck_of standard_dict) = 52 \<and>
   (\<exists>g. after_deal standard_dict (deck_of standard_dict) [10, 20] = Ok (g, [])) \<and>
   \<not> (\<exists>reads0 g reads res.
        after_deal standard_dict (deck_of standard_dict) reads0 = Ok (g, reads) \<and>
        start g reads = Ok res)"
proof (intro conjI notI)
  show "length (deck_of standard_dict) = 52"
    by (rule standard_deck_facts)
  from War_standard obtain g0 where
    g0: "War standard_dict = Inr g0" "players g0 = 2" "req_hw g0 = 2"
    by blast
  then show "\<exists>g. after_deal standard_dict (deck_of standard_dict) [10, 20] = Ok (g, [])"
    by (simp add: after_deal_def create_hands_two)
  assume "\<exists>reads0 g reads res.
        after_deal standard_dict (deck_of standard_dict) reads0 = Ok (g, reads) \<and>
        start g reads = Ok res"
  then obtain reads0 g reads res where
    deal: "after_deal standard_dict (deck_of standard_dict) reads0 = Ok (g, reads)" and
    ends: "start g reads = Ok res"
    by blast
  from after_deal_Ok [OF deal] standard_deck_facts(1) obtain h0 h1 where
    g: "players g = 2" "hands g 0 = Some h0" "hands g 1 = Some h1"
      "turn h0 = Some True" "turn h1 \<noteq> Some True" and
    piles: "active h0 = take 26 (deck_of standard_dict)" "dead h0 = []"
      "active h1 = drop 26 (deck_of standard_dict)" "dead h1 = []"
    by fastforce
  have "start g reads \<noteq> Ok res"
  proof (rule start_all_ties [OF g])
    show "\<forall>p\<in>set (zip (active h0) (active h1)). tie p"
      unfolding piles using same_values_tie [OF standard_deck_facts(2)] by blast
  qed (simp_all add: piles standard_deck_facts(1))
  with ends show False
    by simp
qed


text \<open>
  Claim C4, as amended. For every shuffle of the standard 52-card deck in which, at some
  position, the card of the first half and the card of the second half are not a tie,
  with two distinct tags registered and the players presenting them in turn, the play loop
  ends after finitely many rounds: \<open>start\<close> returns, it announces a player, that player's
  dead list holds exactly 52 cards and the other's fewer.
\<close>

theorem start_terminates:
  assumes "mset shuffled = mset (deck_of standard_dict)"
    and "r0 \<noteq> r1"
    and "i < 26" "\<not> tie (shuffled ! i, shuffled ! (26 + i))"
  shows "\<exists>n g w g' hw hl.
           after_deal standard_dict shuffled (r0 # r1 # plays r0 r1 n) = Ok (g, plays r0 r1 n) \<and>
           start g (plays r0 r1 n) = Ok (Some w, g') \<and> (w = 0 \<or> w = 1) \<and>
           hands g' w = Some hw \<and> hands g' (1 - w) = Some hl \<and>
           length (dead hw) = 52 \<and> length (dead hl) < 52"
proof -
  from assms(1) have len: "length shuffled = 52"
    using mset_eq_length standard_deck_facts(1) by fastforce
  from assms(1) have "set shuffled = set (deck_of standard_dict)"
    by (rule mset_eq_setD)
  with standard_deck_facts(3) have strs: "\<forall>c \<in> set shuffled. \<exists>s. card_value c = Str s"
    by (simp add: list_all_iff)
  from War_standard obtain g0 where
    g0: "War standard_dict = Inr g0" "players g0 = 2" "req_hw g0 = 2"
    by blast
  define h0 where "h0 = \<lparr>active = take 26 shuffled, dead = [], rfids = [r0], turn = Some True\<rparr>"
  define h1 where "h1 = \<lparr>active = drop 26 shuffled, dead = [], rfids = [r1], turn = None\<rparr>"
  define g where "g = g0\<lparr>deck := shuffle (deck g0) shuffled, hands := (hands g0)(0 \<mapsto> h0, 1 \<mapsto> h1)\<rparr>"
  have deal: "after_deal standard_dict shuffled (r0 # r1 # rs) = Ok (g, rs)" for rs
    using g0 len by (simp add: after_deal_def create_hands_two g_def h0_def h1_def)
  have g: "players g = 2" "hands g 0 = Some h0" "hands g 1 = Some h1"
    using g0 by (simp_all add: g_def)
  have "\<exists>n w g' hw hl. start g (plays r0 r1 n) = Ok (Some w, g') \<and> (w = 0 \<or> w = 1) \<and>
           hands g' w = Some hw \<and> hands g' (1 - w) = Some hl \<and>
           length (dead hw) = 52 \<and> length (dead hl) < 52"
  proof (rule start_decides [OF g])
    show "\<forall>p\<in>set (zip (active h0) (active h1)). tie p \<or> decided p"
    proof
      fix p
      assume member: "p \<in> set (zip (active h0) (active h1))"
      obtain a b where p: "p = (a, b)"
        by (cases p)
      with member have "(a, b) \<in> set (zip (take 26 shuffled) (drop 26 shuffled))"
        by (simp add: h0_def h1_def)
      then have "a \<in> set (take 26 shuffled)" "b \<in> set (drop 26 shuffled)"
        by (auto dest: set_zip_leftD set_zip_rightD)
      then have "a \<in> set shuffled" "b \<in> set shuffled"
        by (auto dest: in_set_takeD in_set_dropD)
      with strs obtain s t where "card_value a = Str s" "card_value b = Str t"
        by blast
      then show "tie p \<or> decided p"
        unfolding p by (rule strings_compare)
    qed
    show "\<exists>p\<in>set (zip (active h0) (active h1)). \<not> tie p"
    proof
      show "\<not> tie (shuffled ! i, shuffled ! (26 + i))"
        by (rule assms(4))
      have "take 26 shuffled ! i = shuffled ! i" "drop 26 shuffled ! i = shuffled ! (26 + i)"
        using assms(3) len by simp_all
      then show "(shuffled ! i, shuffled ! (26 + i)) \<in> set (zip (active h0) (active h1))"
        using assms(3) len by (auto simp: in_set_zip h0_def h1_def intro!: exI [of _ i])
    qed
  qed (use assms(2) len in \<open>simp_all add: h0_def h1_def\<close>)
  then obtain n w g' hw hl where
    "start g (plays r0 r1 n) = Ok (Some w, g')" "w = 0 \<or> w = 1"
    "hands g' w = Some hw" "hands g' (1 - w) = Some hl"
    "length (dead hw) = 52" "length (dead hl) < 52"
    by blast
  with deal [of "plays r0 r1 n"] show ?thesis
    by (intro exI [of _ n] exI [of _ g] exI [of _ w] exI [of _ g'] exI [of _ hw] exI [of _ hl])
      simp
qed

theorem start_terminates_witness:
  "\<exists>n g w g' hw hl.
     after_deal standard_dict
       (rev (take 2 (deck_of standard_dict)) @ drop 2 (deck_of standard_dict))
       (10 # 20 # plays 10 20 n) = Ok (g, plays 10 20 n) \<and>
     start g (plays 10 20 n) = Ok (Some w, g') \<and> (w = 0 \<or> w = 1) \<and>
     hands g' w = Some hw \<and> hands g' (1 - w) = Some hl \<and>
     length (dead hw) = 52 \<and> length (dead hl) < 52"
proof -
  let ?s = "rev (take 2 (deck_of standard_dict)) @ drop 2 (deck_of standard_dict)"
  have "mset (take 2 (deck_of standard_dict)) + mset (drop 2 (deck_of standard_dict)) =
        mset (deck_of standard_dict)"
    by (simp only: mset_append [symmetric] append_take_drop_id)
  then have perm: "mset ?s = mset (deck_of standard_dict)"
    by simp
  have tags: "(10 :: int) \<noteq> 20"
    by simp
  have first: "(0 :: nat) < 26"
    by simp
  have decided: "\<not> tie (?s ! 0, ?s ! (26 + 0))"
    by (simp add: tie_def check_winner_plays ebind_def translate_def translate_A_K_def
        deck_of_def CardDeck_def create_deck_def standard_dict_def)
  show ?thesis
    by (rule start_terminates [OF perm tags first decided])
qed

end
